theory Spec2Isabelle
  imports Complex_Main "HOL-Library.Sublist"
begin

section \<open>Alt-Audit: the scanner front end and the scan engine it talks to\<close>

text \<open>
  The repository holds the React/TypeScript client of the Alt-Audit image accessibility
  scanner: the typed API records (\<^verbatim>\<open>types/index.ts\<close>), the API client
  (\<^verbatim>\<open>services/api.ts\<close>) and the scanner components. The definitions below are shallow
  embeddings of those functions. JavaScript strings are modelled as \<^typ>\<open>string\<close>,
  an optional field \<^verbatim>\<open>f?: T\<close> as \<^typ>\<open>'a option\<close> (\<^const>\<open>None\<close> for
  \<^verbatim>\<open>undefined\<close> or \<^verbatim>\<open>null\<close>), and the integer-valued numbers of the API (counts,
  lengths, ids) as \<^typ>\<open>int\<close>. Functions of the platform that the code calls and
  whose result the code only passes on (the validation library's URL check, the
  percent-encoding of a query, the printing of a number, the lower-casing of a string) are
  parameters of the definitions that call them.
\<close>

subsection \<open>JavaScript string operations\<close>

text \<open>
  Lower-casing of the ASCII letters; every other character is kept. This is the case
  folding of URL schemes, and what \<^verbatim>\<open>String.prototype.toLowerCase\<close> does on a string of
  ASCII characters.
\<close>

definition toLowerChar :: "char \<Rightarrow> char" where
  "toLowerChar c =
     (case map_of (zip ''ABCDEFGHIJKLMNOPQRSTUVWXYZ'' ''abcdefghijklmnopqrstuvwxyz'') c of
        Some l \<Rightarrow> l
      | None \<Rightarrow> c)"

definition toLowerCase :: "string \<Rightarrow> string" where
  "toLowerCase s = map toLowerChar s"

text \<open>\<^verbatim>\<open>s.startsWith(p)\<close>: the first \<open>length p\<close> characters of \<open>s\<close> are \<open>p\<close>.\<close>

definition startsWith :: "string \<Rightarrow> string \<Rightarrow> bool" where
  "startsWith s p = (take (length p) s = p)"

text \<open>\<^verbatim>\<open>s.includes(sub)\<close>: \<open>sub\<close> starts at some position of \<open>s\<close>.\<close>

fun includes_str :: "string \<Rightarrow> string \<Rightarrow> bool" where
  "includes_str [] sub = (sub = [])"
| "includes_str (c # s) sub = (startsWith (c # s) sub \<or> includes_str s sub)"

text \<open>
  The decimal digits of an integer, with a leading minus sign for a negative number. This is
  what \<^verbatim>\<open>Number.prototype.toString\<close> prints for an integer of magnitude below
  \<open>10\<^sup>2\<^sup>1\<close>; from there on JavaScript prints an exponent.
\<close>

fun string_of_nat :: "nat \<Rightarrow> string" where
  "string_of_nat n =
     (if n < 10 then [''0123456789'' ! n]
      else string_of_nat (n div 10) @ [''0123456789'' ! (n mod 10)])"

declare string_of_nat.simps [simp del]

definition toString :: "int \<Rightarrow> string" where
  "toString i = (if i < 0 then CHR ''-'' # string_of_nat (nat (- i)) else string_of_nat (nat i))"

subsection \<open>API records (\<^verbatim>\<open>types/index.ts\<close>)\<close>

datatype ScanStatus = Pending | Running | Completed | Failed

fun status_string :: "ScanStatus \<Rightarrow> string" where
  "status_string Pending = ''pending''"
| "status_string Running = ''running''"
| "status_string Completed = ''completed''"
| "status_string Failed = ''failed''"

record ImageDetail =
  detail_id :: int
  scan_result_id :: int
  image_url :: string
  alt_text :: "string option"
  has_alt_text :: bool
  alt_text_length :: "int option"
  image_width :: "int option"
  image_height :: "int option"
  is_decorative :: bool
  detail_created_at :: string

subsection \<open>The quality tier of an image (\<^verbatim>\<open>ImageList.tsx\<close>)\<close>

text \<open>
  \<^verbatim>\<open>!image.alt_text_length\<close> holds when the optional number is \<^verbatim>\<open>undefined\<close>,
  \<^verbatim>\<open>null\<close> or \<open>0\<close>.
\<close>

definition falsy_number :: "int option \<Rightarrow> bool" where
  "falsy_number n = (case n of None \<Rightarrow> True | Some k \<Rightarrow> k = 0)"

text \<open>
  A comparison of \<^verbatim>\<open>undefined\<close> with a number is false in JavaScript; only a present
  number can be below or above a bound.
\<close>

definition number_lt :: "int option \<Rightarrow> int \<Rightarrow> bool" where
  "number_lt n b = (case n of None \<Rightarrow> False | Some k \<Rightarrow> k < b)"

definition number_gt :: "int option \<Rightarrow> int \<Rightarrow> bool" where
  "number_gt n b = (case n of None \<Rightarrow> False | Some k \<Rightarrow> k > b)"

definition getAltTextQuality :: "ImageDetail \<Rightarrow> string" where
  "getAltTextQuality img =
     (if \<not> has_alt_text img then ''missing''
      else if is_decorative img then ''decorative''
      else if falsy_number (alt_text_length img) \<or> number_lt (alt_text_length img) 5
        then ''poor''
      else if number_gt (alt_text_length img) 125 then ''too-long''
      else ''good'')"

text \<open>
  An image with the given \<^verbatim>\<open>has_alt_text\<close>, \<^verbatim>\<open>is_decorative\<close> and
  \<^verbatim>\<open>alt_text_length\<close>, used to run the functions on concrete inputs.
\<close>

definition sample_image :: "bool \<Rightarrow> bool \<Rightarrow> int option \<Rightarrow> ImageDetail" where
  "sample_image has dec len =
     \<lparr>detail_id = 1, scan_result_id = 1, image_url = ''https://example.com/image1.jpg'',
      alt_text = None, has_alt_text = has, alt_text_length = len,
      image_width = Some 100, image_height = Some 100, is_decorative = dec,
      detail_created_at = ''2024-01-01T00:00:00Z''\<rparr>"

subsection \<open>The API client's authentication state (\<^verbatim>\<open>services/api.ts\<close>)\<close>

text \<open>
  The client keeps its token in the field \<^verbatim>\<open>token\<close>, in the default
  \<^verbatim>\<open>Authorization\<close> header of its axios instance and under the key
  \<^verbatim>\<open>access_token\<close> of the browser's local storage. The three places are the state
  that the methods below pass along.
\<close>

record ApiClient =
  token :: "string option"
  authorization_header :: "string option"
  stored_access_token :: "string option"

record Token =
  access_token :: string
  token_type :: string
  expires_in :: int

text \<open>
  The outcome of an HTTP request: the response body, or the status of an error response,
  or no response at all.
\<close>

datatype 'a response = Success 'a | ErrorStatus nat | NoResponse

text \<open>A string is truthy in JavaScript when it is neither \<^verbatim>\<open>null\<close> nor empty.\<close>

definition truthy_string :: "string option \<Rightarrow> bool" where
  "truthy_string s = (case s of None \<Rightarrow> False | Some t \<Rightarrow> t \<noteq> [])"

definition setAuthToken :: "string \<Rightarrow> ApiClient \<Rightarrow> ApiClient" where
  "setAuthToken t c =
     c\<lparr>token := Some t, authorization_header := Some (''Bearer '' @ t),
       stored_access_token := Some t\<rparr>"

definition clearAuth :: "ApiClient \<Rightarrow> ApiClient" where
  "clearAuth c = c\<lparr>token := None, authorization_header := None, stored_access_token := None\<rparr>"

text \<open>The constructor reads the stored token and installs it when it is truthy.\<close>

definition new_ApiClient :: "string option \<Rightarrow> ApiClient" where
  "new_ApiClient stored =
     (let c = \<lparr>token = stored, authorization_header = None, stored_access_token = stored\<rparr>
      in case stored of
           None \<Rightarrow> c
         | Some t \<Rightarrow> if truthy_string stored then setAuthToken t c else c)"

text \<open>
  The response interceptor: a 401 clears the authentication, every other error only
  shows a message.
\<close>

definition handleError :: "'a response \<Rightarrow> ApiClient \<Rightarrow> ApiClient" where
  "handleError r c =
     (case r of ErrorStatus st \<Rightarrow> (if st = 401 then clearAuth c else c) | _ \<Rightarrow> c)"

text \<open>
  \<^verbatim>\<open>login\<close> posts the credentials; \<open>r\<close> is what the server answers. On success
  the token of the answer is installed and returned; on an error the promise is rejected
  (\<^const>\<open>None\<close>) after the interceptor has run.
\<close>

definition login :: "Token response \<Rightarrow> ApiClient \<Rightarrow> Token option \<times> ApiClient" where
  "login r c =
     (case r of
        Success tok \<Rightarrow> (Some tok, setAuthToken (access_token tok) c)
      | _ \<Rightarrow> (None, handleError r c))"

definition logout :: "ApiClient \<Rightarrow> ApiClient" where
  "logout c = clearAuth c"

definition isAuthenticated :: "ApiClient \<Rightarrow> bool" where
  "isAuthenticated c = truthy_string (token c)"

definition getToken :: "ApiClient \<Rightarrow> string option" where
  "getToken c = token c"

subsection \<open>Scan records, pagination and filters (\<^verbatim>\<open>types/index.ts\<close>)\<close>

text \<open>
  \<^verbatim>\<open>ScanResult\<close> has every field of \<^verbatim>\<open>ScanResultSummary\<close> and five more, so it is
  declared as its extension. The percentages are JavaScript numbers; the model takes them
  as rationals.
\<close>

record ScanResultSummary =
  scan_id :: int
  url :: string
  total_images :: int
  images_with_alt :: int
  images_missing_alt :: int
  scan_status :: ScanStatus
  alt_text_coverage_percentage :: rat
  created_at :: string

record ScanResult = ScanResultSummary +
  error_message :: "string option"
  scan_duration_ms :: "int option"
  missing_alt_percentage :: rat
  updated_at :: string
  user_id :: int

text \<open>
  \<^verbatim>\<open>skip\<close> and \<^verbatim>\<open>limit\<close> are JavaScript numbers that the client only prints into
  the query; the record leaves their type \<open>'n\<close> open.
\<close>

record 'n PaginationParams =
  skip :: 'n
  limit :: 'n

record ScanFilters =
  status :: "ScanStatus option"
  start_date :: "string option"
  end_date :: "string option"
  search :: "string option"

subsection \<open>Listing scans (\<^verbatim>\<open>ApiClient.getScans\<close>)\<close>

text \<open>
  The entries that \<^verbatim>\<open>getScans\<close> appends to its \<^verbatim>\<open>URLSearchParams\<close>, in order. A
  filter is appended when it is truthy: a status when it is present (each of the four
  status names is a non-empty string), a date when it is present and not empty. The
  parameter \<open>num\<close> is \<^verbatim>\<open>Number.prototype.toString\<close>.
\<close>

definition getScans_params :: "('n \<Rightarrow> string) \<Rightarrow> 'n PaginationParams \<Rightarrow> ScanFilters \<Rightarrow> (string \<times> string) list" where
  "getScans_params num pagination filters =
     [(''skip'', num (skip pagination)), (''limit'', num (limit pagination))] @
     (case status filters of
        Some s \<Rightarrow> [(''status_filter'', status_string s)]
      | None \<Rightarrow> []) @
     (case start_date filters of
        Some d \<Rightarrow> if d \<noteq> [] then [(''start_date'', d)] else []
      | None \<Rightarrow> []) @
     (case end_date filters of
        Some d \<Rightarrow> if d \<noteq> [] then [(''end_date'', d)] else []
      | None \<Rightarrow> [])"

text \<open>
  \<^verbatim>\<open>URLSearchParams.toString\<close>: the entries as \<^verbatim>\<open>name=value\<close>, joined by \<^verbatim>\<open>&\<close>.
  The percent-encoding \<open>enc\<close> of names and values belongs to the browser and is a
  parameter.
\<close>

fun URLSearchParams_toString :: "(string \<Rightarrow> string) \<Rightarrow> (string \<times> string) list \<Rightarrow> string" where
  "URLSearchParams_toString enc [] = []"
| "URLSearchParams_toString enc [(k, v)] = enc k @ ''='' @ enc v"
| "URLSearchParams_toString enc ((k, v) # kv # rest) =
     enc k @ ''='' @ enc v @ ''&'' @ URLSearchParams_toString enc (kv # rest)"

text \<open>The path and query that \<^verbatim>\<open>getScans\<close> requests.\<close>

definition getScans_url :: "(string \<Rightarrow> string) \<Rightarrow> ('n \<Rightarrow> string) \<Rightarrow> 'n PaginationParams \<Rightarrow> ScanFilters \<Rightarrow> string" where
  "getScans_url enc num pagination filters =
     ''/scans/?'' @ URLSearchParams_toString enc (getScans_params num pagination filters)"

subsection \<open>Searching the loaded scans (the scan history component)\<close>

text \<open>
  \<^verbatim>\<open>filteredScans\<close> filters the component's \<^verbatim>\<open>scans\<close> state by its
  \<^verbatim>\<open>searchTerm\<close> state; an empty term is falsy and keeps every scan. The parameter
  \<open>lower\<close> is \<^verbatim>\<open>String.prototype.toLowerCase\<close>, which lower-cases every cased letter
  of the platform's character set.
\<close>

definition filteredScans :: "(string \<Rightarrow> string) \<Rightarrow> string \<Rightarrow> ScanResultSummary list \<Rightarrow> ScanResultSummary list" where
  "filteredScans lower searchTerm scans =
     filter (\<lambda>scan.
        if searchTerm \<noteq> [] then
          (let searchLower = lower searchTerm
           in includes_str (lower (url scan)) searchLower)
        else True) scans"

text \<open>A loaded scan with the given id and URL, for concrete runs.\<close>

definition sample_scan :: "int \<Rightarrow> string \<Rightarrow> ScanResultSummary" where
  "sample_scan i u =
     \<lparr>scan_id = i, url = u, total_images = 10, images_with_alt = 7, images_missing_alt = 3,
      scan_status = Completed, alt_text_coverage_percentage = 70,
      created_at = ''2024-01-01T00:00:00Z''\<rparr>"

subsection \<open>The URL form schema (\<^verbatim>\<open>UrlInput.tsx\<close>)\<close>

text \<open>
  \<^verbatim>\<open>urlSchema\<close> chains three checks on the \<^verbatim>\<open>url\<close> field: \<^verbatim>\<open>min(1)\<close>,
  \<^verbatim>\<open>url()\<close> and the refinement on the prefix. Each failed check adds its message to
  the issues, and the value is accepted when there is no issue. The check behind
  \<^verbatim>\<open>url()\<close> is the validation library's (it asks the platform's URL parser) and
  is the parameter \<open>is_url\<close>.
\<close>

definition urlSchema_issues :: "(string \<Rightarrow> bool) \<Rightarrow> string \<Rightarrow> string list" where
  "urlSchema_issues is_url u =
     (if length u < 1 then [''URL is required''] else []) @
     (if \<not> is_url u then [''Please enter a valid URL''] else []) @
     (if \<not> (startsWith u ''http://'' \<or> startsWith u ''https://'')
      then [''URL must start with http:// or https://''] else [])"

definition urlSchema :: "(string \<Rightarrow> bool) \<Rightarrow> string \<Rightarrow> string list + string" where
  "urlSchema is_url u =
     (let issues = urlSchema_issues is_url u in if issues = [] then Inr u else Inl issues)"

text \<open>
  Two stand-ins for the library's \<^verbatim>\<open>url()\<close> check in concrete runs: one that passes
  every string, as the platform's parser passes \<^verbatim>\<open>https://example.com\<close>,
  \<^verbatim>\<open>HTTP://example.com\<close> and \<^verbatim>\<open>http:example.com\<close>, and one that passes none.
\<close>

definition url_check_passes :: "string \<Rightarrow> bool" where
  "url_check_passes u = True"

definition url_check_fails :: "string \<Rightarrow> bool" where
  "url_check_fails u = False"

text \<open>
  The scheme of a raw URL (RFC 3986, section 3.1): the characters before the first colon,
  where upper-case letters are equivalent to lower-case ones. A string without a colon has
  no scheme.
\<close>

definition url_scheme :: "string \<Rightarrow> string option" where
  "url_scheme u =
     (if CHR '':'' \<in> set u then Some (toLowerCase (takeWhile (\<lambda>c. c \<noteq> CHR '':'') u))
      else None)"

subsection \<open>The scan engine behind the API\<close>

text \<open>
  The client only displays what the scan engine computes: the classifier, the aggregator
  and the lifecycle controller run on the server, and their code is not among the client
  sources. The definitions of this subsection model them from the specification, over the
  API records above.
\<close>

text \<open>
  Modelled from the spec: the image reference that the extractor hands to the classifier
  (section 4.3), with the resolved image URL, the \<^verbatim>\<open>alt\<close> attribute (absent, or its
  literal value) and the declared dimensions. The extractor's code is missing.
\<close>

record RawImageRef =
  raw_src :: string
  alt :: "string option"
  raw_width :: "int option"
  raw_height :: "int option"

text \<open>
  Modelled from the spec: the alt-text classifier \<^verbatim>\<open>classify\<close> (section 4.4), whose code
  is missing. \<^verbatim>\<open>has_alt_text\<close> is "alt attribute present", \<^verbatim>\<open>is_decorative\<close> is
  "alt attribute present and value equal to the empty string", \<^verbatim>\<open>alt_text_length\<close> is
  the length of the alt text when it is non-empty and absent otherwise. The row's id, the
  scan's id and the creation time come from the persistence layer and are arguments.
\<close>

definition classify :: "int \<Rightarrow> int \<Rightarrow> string \<Rightarrow> RawImageRef \<Rightarrow> ImageDetail" where
  "classify row sid now r =
     \<lparr>detail_id = row, scan_result_id = sid, image_url = raw_src r, alt_text = alt r,
      has_alt_text = (alt r \<noteq> None),
      alt_text_length =
        (case alt r of
           None \<Rightarrow> None
         | Some a \<Rightarrow> if a \<noteq> [] then Some (int (length a)) else None),
      image_width = raw_width r, image_height = raw_height r,
      is_decorative = (alt r = Some []),
      detail_created_at = now\<rparr>"

text \<open>
  Modelled from the spec: rounding to one decimal place by "standard round-half-up"
  (section 4.5): the nearest multiple of one tenth, a tie going up. The aggregator's code
  is missing.
\<close>

definition round_half_up_1 :: "rat \<Rightarrow> rat" where
  "round_half_up_1 x = of_int \<lfloor>x * 10 + 1 / 2\<rfloor> / 10"

text \<open>
  Modelled from the spec: \<^verbatim>\<open>alt_text_coverage_percentage\<close> (sections 3 and 4.5), that is
  \<^verbatim>\<open>images_with_alt / total_images * 100\<close> rounded to one decimal, and exactly \<open>0\<close> when
  \<^verbatim>\<open>total_images\<close> is \<open>0\<close>. The aggregator's code is missing.
\<close>

definition coverage_percentage :: "int \<Rightarrow> int \<Rightarrow> rat" where
  "coverage_percentage n_with_alt n_total =
     (if n_total = 0 then 0
      else round_half_up_1 (of_int n_with_alt / of_int n_total * 100))"

text \<open>
  Modelled from the spec: the coverage aggregator \<^verbatim>\<open>aggregate\<close> (section 4.5), whose code
  is missing. Every image counts once; an image counts as "with alt" when
  \<^verbatim>\<open>has_alt_text\<close> is true (a decorative image included) and as "missing alt" when it is
  false.
\<close>

record Aggregate =
  agg_total_images :: int
  agg_images_with_alt :: int
  agg_images_missing_alt :: int
  agg_coverage_percentage :: rat

definition aggregate :: "ImageDetail list \<Rightarrow> Aggregate" where
  "aggregate details =
     (let n_total = int (length details);
          n_with = int (length (filter has_alt_text details));
          n_missing = int (length (filter (\<lambda>d. \<not> has_alt_text d) details))
      in \<lparr>agg_total_images = n_total, agg_images_with_alt = n_with,
          agg_images_missing_alt = n_missing,
          agg_coverage_percentage = coverage_percentage n_with n_total\<rparr>)"

text \<open>
  The counts of a scan record are consistent when they are non-negative and the total is
  the sum of the other two. The predicate reads the fields that \<^verbatim>\<open>ScanResult\<close> and
  \<^verbatim>\<open>ScanResultSummary\<close> share.
\<close>

definition counts_consistent :: "'a ScanResultSummary_scheme \<Rightarrow> bool" where
  "counts_consistent s =
     (0 \<le> total_images s \<and> 0 \<le> images_with_alt s \<and> 0 \<le> images_missing_alt s \<and>
      total_images s = images_with_alt s + images_missing_alt s)"

text \<open>
  Modelled from the spec: the store behind the lifecycle controller (sections 3 and 6): the
  scan records by id, and the image rows of each scan. The persistence layer's code is
  missing.
\<close>

record Engine =
  scan_rows :: "int \<rightharpoonup> ScanResult"
  image_rows :: "int \<Rightarrow> ImageDetail list"

datatype engine_error = InvalidTransition | NotFound | AlreadyExists

definition empty_engine :: Engine where
  "empty_engine = \<lparr>scan_rows = Map.empty, image_rows = (\<lambda>i. [])\<rparr>"

text \<open>
  Modelled from the spec: \<^verbatim>\<open>RequestScan\<close>, the transition "Create" of section 4.6, whose
  code is missing: it persists a new record in \<^verbatim>\<open>pending\<close>. The spec gives a new scan no
  counts; the model starts them at zero, without an error message and without rows.
\<close>

definition RequestScan :: "int \<Rightarrow> string \<Rightarrow> int \<Rightarrow> string \<Rightarrow> Engine \<Rightarrow> (engine_error + ScanResult) \<times> Engine" where
  "RequestScan i u uid now e =
     (case scan_rows e i of
        Some s \<Rightarrow> (Inl AlreadyExists, e)
      | None \<Rightarrow>
          (let s = \<lparr>scan_id = i, url = u, total_images = 0, images_with_alt = 0,
                    images_missing_alt = 0, scan_status = Pending,
                    alt_text_coverage_percentage = 0, created_at = now,
                    error_message = None, scan_duration_ms = None,
                    missing_alt_percentage = 0, updated_at = now, user_id = uid\<rparr>
           in (Inr s, e\<lparr>scan_rows := (scan_rows e)(i \<mapsto> s), image_rows := (image_rows e)(i := [])\<rparr>)))"

text \<open>
  Modelled from the spec: the transition \<^verbatim>\<open>pending\<close> to \<^verbatim>\<open>running\<close> of section 4.6,
  whose code is missing. It is refused for a scan that is not \<^verbatim>\<open>pending\<close>, so that a
  scan has at most one pipeline run in flight.
\<close>

definition start_scan :: "int \<Rightarrow> string \<Rightarrow> Engine \<Rightarrow> (engine_error + ScanResult) \<times> Engine" where
  "start_scan i now e =
     (case scan_rows e i of
        None \<Rightarrow> (Inl NotFound, e)
      | Some s \<Rightarrow>
          if scan_status s = Pending then
            (let s' = s\<lparr>scan_status := Running, updated_at := now\<rparr>
             in (Inr s', e\<lparr>scan_rows := (scan_rows e)(i \<mapsto> s')\<rparr>))
          else (Inl InvalidTransition, e))"

text \<open>
  Modelled from the spec: the transition \<^verbatim>\<open>running\<close> to \<^verbatim>\<open>completed\<close> of section 4.6,
  whose code is missing: the image rows and the aggregate counts are stored together with the
  new status, in one step. The spec does not define \<^verbatim>\<open>missing_alt_percentage\<close>; the
  model leaves that field as it is.
\<close>

definition complete_scan :: "int \<Rightarrow> ImageDetail list \<Rightarrow> int \<Rightarrow> string \<Rightarrow> Engine \<Rightarrow> (engine_error + ScanResult) \<times> Engine" where
  "complete_scan i details duration now e =
     (case scan_rows e i of
        None \<Rightarrow> (Inl NotFound, e)
      | Some s \<Rightarrow>
          if scan_status s = Running then
            (let a = aggregate details;
                 s' = s\<lparr>total_images := agg_total_images a,
                        images_with_alt := agg_images_with_alt a,
                        images_missing_alt := agg_images_missing_alt a,
                        scan_status := Completed,
                        alt_text_coverage_percentage := agg_coverage_percentage a,
                        scan_duration_ms := Some duration, updated_at := now\<rparr>
             in (Inr s', e\<lparr>scan_rows := (scan_rows e)(i \<mapsto> s'),
                            image_rows := (image_rows e)(i := details)\<rparr>))
          else (Inl InvalidTransition, e))"

text \<open>
  Modelled from the spec: the transition to \<^verbatim>\<open>failed\<close> of section 4.6, whose code is
  missing. A validation or SSRF rejection fails a scan before any fetch and a fetch error
  fails a running scan, so the transition is taken from \<^verbatim>\<open>pending\<close> and from
  \<^verbatim>\<open>running\<close>. A failed scan has an error message and no image rows.
\<close>

definition fail_scan :: "int \<Rightarrow> string \<Rightarrow> int \<Rightarrow> string \<Rightarrow> Engine \<Rightarrow> (engine_error + ScanResult) \<times> Engine" where
  "fail_scan i message duration now e =
     (case scan_rows e i of
        None \<Rightarrow> (Inl NotFound, e)
      | Some s \<Rightarrow>
          if scan_status s = Pending \<or> scan_status s = Running then
            (let s' = s\<lparr>scan_status := Failed, error_message := Some message,
                        scan_duration_ms := Some duration, updated_at := now\<rparr>
             in (Inr s', e\<lparr>scan_rows := (scan_rows e)(i \<mapsto> s'),
                            image_rows := (image_rows e)(i := [])\<rparr>))
          else (Inl InvalidTransition, e))"

text \<open>
  Modelled from the spec: \<^verbatim>\<open>RetryScan\<close>, the transition \<^verbatim>\<open>failed\<close> to
  \<^verbatim>\<open>pending\<close> of sections 4.6 and 6, whose code is missing. It clears the error
  message and discards the image rows of the scan; it is rejected with an
  invalid-transition error unless the current status is \<^verbatim>\<open>failed\<close>.
\<close>

definition RetryScan :: "int \<Rightarrow> string \<Rightarrow> Engine \<Rightarrow> (engine_error + ScanResult) \<times> Engine" where
  "RetryScan i now e =
     (case scan_rows e i of
        None \<Rightarrow> (Inl NotFound, e)
      | Some s \<Rightarrow>
          if scan_status s = Failed then
            (let s' = s\<lparr>scan_status := Pending, error_message := None, updated_at := now\<rparr>
             in (Inr s', e\<lparr>scan_rows := (scan_rows e)(i \<mapsto> s'),
                            image_rows := (image_rows e)(i := [])\<rparr>))
          else (Inl InvalidTransition, e))"

text \<open>The operations of the scan lifecycle, and a run of them from a store.\<close>

datatype lifecycle_op =
  Create int string int string
  | Run int string
  | Complete int "ImageDetail list" int string
  | Fail int string int string
  | Retry int string

fun apply_op :: "lifecycle_op \<Rightarrow> Engine \<Rightarrow> (engine_error + ScanResult) \<times> Engine" where
  "apply_op (Create i u uid now) e = RequestScan i u uid now e"
| "apply_op (Run i now) e = start_scan i now e"
| "apply_op (Complete i details duration now) e = complete_scan i details duration now e"
| "apply_op (Fail i message duration now) e = fail_scan i message duration now e"
| "apply_op (Retry i now) e = RetryScan i now e"

fun run_ops :: "lifecycle_op list \<Rightarrow> Engine \<Rightarrow> Engine" where
  "run_ops [] e = e"
| "run_ops (op # ops) e = run_ops ops (snd (apply_op op e))"

text \<open>Every completed scan of the store has consistent counts.\<close>

definition completed_consistent :: "Engine \<Rightarrow> bool" where
  "completed_consistent e =
     (\<forall>i s. scan_rows e i = Some s \<and> scan_status s = Completed \<longrightarrow> counts_consistent s)"

subsection \<open>Retrying a scan from the results view (\<^verbatim>\<open>ScanResults.tsx\<close>)\<close>

text \<open>
  The part of the component's state that a retry touches: the displayed scan and the
  \<^verbatim>\<open>isRetrying\<close> flag.
\<close>

record ScanResultsView =
  view_scan :: "ScanResult option"
  isRetrying :: bool

text \<open>The Retry button is rendered only for a scan whose status is \<^verbatim>\<open>failed\<close>.\<close>

definition retry_button_shown :: "ScanResultsView \<Rightarrow> bool" where
  "retry_button_shown v = (case view_scan v of None \<Rightarrow> False | Some s \<Rightarrow> scan_status s = Failed)"

text \<open>
  \<^verbatim>\<open>handleRetry\<close> posts the retry request; \<open>r\<close> is what the server answers. A
  successful answer replaces the displayed scan; a rejection only shows a message. The
  flag is reset in either case.
\<close>

definition handleRetry :: "ScanResult response \<Rightarrow> ScanResultsView \<Rightarrow> ScanResultsView" where
  "handleRetry r v =
     (case r of
        Success updatedScan \<Rightarrow> v\<lparr>view_scan := Some updatedScan, isRetrying := False\<rparr>
      | _ \<Rightarrow> v\<lparr>isRetrying := False\<rparr>)"

text \<open>An image reference with the given \<^verbatim>\<open>alt\<close> attribute, for concrete runs.\<close>

definition sample_ref :: "string option \<Rightarrow> RawImageRef" where
  "sample_ref a =
     \<lparr>raw_src = ''https://example.com/cat.png'', alt = a, raw_width = None, raw_height = None\<rparr>"

text \<open>
  Scenario A of the specification: a page with three images, one with \<^verbatim>\<open>alt="A cat"\<close>,
  one with \<^verbatim>\<open>alt=""\<close> and one without \<^verbatim>\<open>alt\<close>, scanned to completion; and a scan
  that fails.
\<close>

definition scenario_a_images :: "ImageDetail list" where
  "scenario_a_images =
     [classify 1 1 ''t2'' (sample_ref (Some ''A cat'')),
      classify 2 1 ''t2'' (sample_ref (Some '''')),
      classify 3 1 ''t2'' (sample_ref None)]"

definition scenario_a_ops :: "lifecycle_op list" where
  "scenario_a_ops =
     [Create 1 ''https://example.com'' 7 ''t0'', Run 1 ''t1'',
      Complete 1 scenario_a_images 120 ''t2'']"

definition scenario_a_scan :: ScanResult where
  "scenario_a_scan =
     \<lparr>scan_id = 1, url = ''https://example.com'', total_images = 3, images_with_alt = 2,
      images_missing_alt = 1, scan_status = Completed,
      alt_text_coverage_percentage = 667 / 10, created_at = ''t0'',
      error_message = None, scan_duration_ms = Some 120,
      missing_alt_percentage = 0, updated_at = ''t2'', user_id = 7\<rparr>"

definition failed_scan_ops :: "lifecycle_op list" where
  "failed_scan_ops =
     [Create 1 ''https://example.com'' 7 ''t0'', Run 1 ''t1'',
      Fail 1 ''The page could not be fetched'' 35 ''t2'']"

definition failed_scan :: ScanResult where
  "failed_scan =
     \<lparr>scan_id = 1, url = ''https://example.com'', total_images = 0, images_with_alt = 0,
      images_missing_alt = 0, scan_status = Failed,
      alt_text_coverage_percentage = 0, created_at = ''t0'',
      error_message = Some ''The page could not be fetched'', scan_duration_ms = Some 35,
      missing_alt_percentage = 0, updated_at = ''t2'', user_id = 7\<rparr>"

text \<open>
  Every scan of the store carries the coverage percentage of its own counts: the rounded
  share of \<^verbatim>\<open>images_with_alt\<close> in \<^verbatim>\<open>total_images\<close>.
\<close>

definition coverage_consistent :: "Engine \<Rightarrow> bool" where
  "coverage_consistent e =
     (\<forall>i s. scan_rows e i = Some s \<longrightarrow>
        alt_text_coverage_percentage s =
          coverage_percentage (images_with_alt s) (total_images s))"

text \<open>
  A page with sixteen images of which one has alt text, scanned to completion: the share
  \<open>6.25\<close> lies exactly between two tenths.
\<close>

definition tie_images :: "ImageDetail list" where
  "tie_images =
     classify 1 2 ''t2'' (sample_ref (Some ''Company logo'')) #
     replicate 15 (classify 2 2 ''t2'' (sample_ref None))"

definition tie_ops :: "lifecycle_op list" where
  "tie_ops =
     [Create 2 ''https://example.org'' 7 ''t0'', Run 2 ''t1'', Complete 2 tie_images 80 ''t2'']"

definition tie_scan :: ScanResult where
  "tie_scan =
     \<lparr>scan_id = 2, url = ''https://example.org'', total_images = 16, images_with_alt = 1,
      images_missing_alt = 15, scan_status = Completed,
      alt_text_coverage_percentage = 63 / 10, created_at = ''t0'',
      error_message = None, scan_duration_ms = Some 80,
      missing_alt_percentage = 0, updated_at = ''t2'', user_id = 7\<rparr>"

text \<open>Three loaded scans, and a query encoding that changes nothing, for concrete runs.\<close>

definition sample_scans :: "ScanResultSummary list" where
  "sample_scans =
     [sample_scan 1 ''https://Example.com/a'', sample_scan 2 ''https://other.org/'',
      sample_scan 3 ''http://www.example.com'']"

definition no_encoding :: "string \<Rightarrow> string" where
  "no_encoding s = s"

section \<open>Properties of the quality tier\<close>

text \<open>
  C1. The quality tier is a function of \<^verbatim>\<open>has_alt_text\<close>, \<^verbatim>\<open>is_decorative\<close> and
  \<^verbatim>\<open>alt_text_length\<close> alone (two images that agree on the three fields get the same
  tier). It is \<^verbatim>\<open>missing\<close> when \<^verbatim>\<open>has_alt_text\<close> is false; \<^verbatim>\<open>decorative\<close> when
  \<^verbatim>\<open>has_alt_text\<close> and \<^verbatim>\<open>is_decorative\<close> are true; and for an image with alt text
  that is not decorative and has a recorded length \<open>n\<close>: \<^verbatim>\<open>poor\<close> when \<open>n < 5\<close>,
  \<^verbatim>\<open>too-long\<close> when \<open>n > 125\<close>, and \<^verbatim>\<open>good\<close> when \<open>5 \<le> n \<le> 125\<close>.
\<close>

theorem getAltTextQuality_tiers:
  "(has_alt_text a = has_alt_text b \<and> is_decorative a = is_decorative b \<and>
      alt_text_length a = alt_text_length b \<longrightarrow> getAltTextQuality a = getAltTextQuality b) \<and>
   (\<not> has_alt_text a \<longrightarrow> getAltTextQuality a = ''missing'') \<and>
   (has_alt_text a \<and> is_decorative a \<longrightarrow> getAltTextQuality a = ''decorative'') \<and>
   (has_alt_text a \<and> \<not> is_decorative a \<and> alt_text_length a = Some n \<and> n < 5 \<longrightarrow>
      getAltTextQuality a = ''poor'') \<and>
   (has_alt_text a \<and> \<not> is_decorative a \<and> alt_text_length a = Some n \<and> n > 125 \<longrightarrow>
      getAltTextQuality a = ''too-long'') \<and>
   (has_alt_text a \<and> \<not> is_decorative a \<and> alt_text_length a = Some n \<and> 5 \<le> n \<and> n \<le> 125 \<longrightarrow>
      getAltTextQuality a = ''good'')"
  by (simp add: getAltTextQuality_def falsy_number_def number_lt_def number_gt_def)

theorem getAltTextQuality_tiers_witness:
  "\<not> has_alt_text (sample_image False False None) \<and>
   getAltTextQuality (sample_image False False None) = ''missing'' \<and>
   has_alt_text (sample_image True True None) \<and> is_decorative (sample_image True True None) \<and>
   getAltTextQuality (sample_image True True None) = ''decorative'' \<and>
   has_alt_text (sample_image True False (Some 4)) \<and>
   \<not> is_decorative (sample_image True False (Some 4)) \<and>
   alt_text_length (sample_image True False (Some 4)) = Some 4 \<and> (4::int) < 5 \<and>
   getAltTextQuality (sample_image True False (Some 4)) = ''poor'' \<and>
   alt_text_length (sample_image True False (Some 126)) = Some 126 \<and> (126::int) > 125 \<and>
   getAltTextQuality (sample_image True False (Some 126)) = ''too-long'' \<and>
   alt_text_length (sample_image True False (Some 5)) = Some 5 \<and>
   getAltTextQuality (sample_image True False (Some 5)) = ''good'' \<and>
   alt_text_length (sample_image True False (Some 125)) = Some 125 \<and>
   getAltTextQuality (sample_image True False (Some 125)) = ''good'' \<and>
   has_alt_text ((sample_image True False (Some 12))\<lparr>image_url := ''https://example.com/b.png''\<rparr>) =
     has_alt_text (sample_image True False (Some 12)) \<and>
   is_decorative ((sample_image True False (Some 12))\<lparr>image_url := ''https://example.com/b.png''\<rparr>) =
     is_decorative (sample_image True False (Some 12)) \<and>
   alt_text_length ((sample_image True False (Some 12))\<lparr>image_url := ''https://example.com/b.png''\<rparr>) =
     alt_text_length (sample_image True False (Some 12)) \<and>
   (sample_image True False (Some 12))\<lparr>image_url := ''https://example.com/b.png''\<rparr> \<noteq>
     sample_image True False (Some 12) \<and>
   getAltTextQuality ((sample_image True False (Some 12))\<lparr>image_url := ''https://example.com/b.png''\<rparr>) =
     getAltTextQuality (sample_image True False (Some 12))"
  using getAltTextQuality_tiers [of "sample_image False False None" "sample_image False False None" 0]
    getAltTextQuality_tiers [of "sample_image True True None" "sample_image True True None" 0]
    getAltTextQuality_tiers [of "sample_image True False (Some 4)" "sample_image True False (Some 4)" 4]
    getAltTextQuality_tiers [of "sample_image True False (Some 126)" "sample_image True False (Some 126)" 126]
    getAltTextQuality_tiers [of "sample_image True False (Some 5)" "sample_image True False (Some 5)" 5]
    getAltTextQuality_tiers [of "sample_image True False (Some 125)" "sample_image True False (Some 125)" 125]
    getAltTextQuality_tiers [of "(sample_image True False (Some 12))\<lparr>image_url := ''https://example.com/b.png''\<rparr>"
      "sample_image True False (Some 12)" 12]
  by (simp add: sample_image_def)

text \<open>
  C8. The quality tier is defined for every image and is one of the five tier names. An
  image that has alt text, is not decorative and has no recorded length (the field is
  absent) or a recorded length of \<open>0\<close> is \<^verbatim>\<open>poor\<close>, and so is never \<^verbatim>\<open>good\<close>.
\<close>

theorem getAltTextQuality_total_poor_without_length:
  "getAltTextQuality a \<in> {''missing'', ''decorative'', ''poor'', ''too-long'', ''good''} \<and>
   (has_alt_text a \<and> \<not> is_decorative a \<and>
      (alt_text_length a = None \<or> alt_text_length a = Some 0) \<longrightarrow>
      getAltTextQuality a = ''poor'' \<and> getAltTextQuality a \<noteq> ''good'')"
  by (auto simp add: getAltTextQuality_def falsy_number_def number_lt_def number_gt_def)

theorem getAltTextQuality_total_poor_without_length_witness:
  "has_alt_text (sample_image True False None) \<and>
   \<not> is_decorative (sample_image True False None) \<and>
   alt_text_length (sample_image True False None) = None \<and>
   getAltTextQuality (sample_image True False None) = ''poor'' \<and>
   alt_text_length (sample_image True False (Some 0)) = Some 0 \<and>
   getAltTextQuality (sample_image True False (Some 0)) = ''poor'' \<and>
   getAltTextQuality (sample_image True False (Some 0)) \<noteq> ''good''"
  using getAltTextQuality_total_poor_without_length [of "sample_image True False None"]
    getAltTextQuality_total_poor_without_length [of "sample_image True False (Some 0)"]
  by (simp add: sample_image_def)

section \<open>The authentication state of the API client\<close>

lemma setAuthToken_fields:
  "token (setAuthToken t c) = Some t"
  "authorization_header (setAuthToken t c) = Some (''Bearer '' @ t)"
  "stored_access_token (setAuthToken t c) = Some t"
  by (simp_all add: setAuthToken_def)

lemma clearAuth_fields:
  "token (clearAuth c) = None"
  "authorization_header (clearAuth c) = None"
  "stored_access_token (clearAuth c) = None"
  by (simp_all add: clearAuth_def)

text \<open>
  C9, as stated, at the empty token: after \<^verbatim>\<open>setAuthToken("")\<close> the stored token is the
  empty string, which \<^verbatim>\<open>!!this.token\<close> reads as not authenticated.
\<close>

theorem isAuthenticated_after_setAuthToken_counterexample:
  "getToken (setAuthToken '''' (new_ApiClient None)) = Some '''' \<and>
   \<not> isAuthenticated (setAuthToken '''' (new_ApiClient None))"
  by (simp add: getToken_def isAuthenticated_def truthy_string_def setAuthToken_fields)

text \<open>
  C9, amended. After \<^verbatim>\<open>setAuthToken(t)\<close>, also through a successful \<^verbatim>\<open>login\<close>,
  \<^verbatim>\<open>getToken()\<close> returns \<open>t\<close>, the \<^verbatim>\<open>Authorization\<close> header is \<^verbatim>\<open>Bearer t\<close>, and
  \<^verbatim>\<open>isAuthenticated()\<close> is true exactly when \<open>t\<close> is not empty. After
  \<^verbatim>\<open>clearAuth()\<close>, also through \<^verbatim>\<open>logout\<close>, \<^verbatim>\<open>getToken()\<close> returns \<^verbatim>\<open>null\<close>,
  the header is removed and \<^verbatim>\<open>isAuthenticated()\<close> is false.
\<close>

theorem auth_state_after_set_and_clear:
  "getToken (setAuthToken t c) = Some t \<and>
   authorization_header (setAuthToken t c) = Some (''Bearer '' @ t) \<and>
   isAuthenticated (setAuthToken t c) = (t \<noteq> '''') \<and>
   login (Success tok) c = (Some tok, setAuthToken (access_token tok) c) \<and>
   getToken (snd (login (Success tok) c)) = Some (access_token tok) \<and>
   isAuthenticated (snd (login (Success tok) c)) = (access_token tok \<noteq> '''') \<and>
   getToken (clearAuth c) = None \<and>
   authorization_header (clearAuth c) = None \<and>
   isAuthenticated (clearAuth c) = False \<and>
   getToken (logout c) = None \<and>
   authorization_header (logout c) = None \<and>
   isAuthenticated (logout c) = False"
proof -
  have set_auth: "isAuthenticated (setAuthToken u c) = (u \<noteq> '''')" for u
    by (simp add: isAuthenticated_def truthy_string_def setAuthToken_fields)
  have cleared: "isAuthenticated (clearAuth c) = False"
    by (simp add: isAuthenticated_def truthy_string_def clearAuth_fields)
  have logged_in: "login (Success tok) c = (Some tok, setAuthToken (access_token tok) c)"
    by (simp add: login_def)
  show ?thesis
    unfolding logged_in logout_def getToken_def snd_conv
    using set_auth cleared by (simp add: setAuthToken_fields clearAuth_fields)
qed

section \<open>Listing and searching scans\<close>

lemma startsWith_iff: "startsWith s p \<longleftrightarrow> (\<exists>post. s = p @ post)"
proof
  assume "startsWith s p"
  then have "s = p @ drop (length p) s"
    unfolding startsWith_def by (metis append_take_drop_id)
  then show "\<exists>post. s = p @ post" ..
next
  assume "\<exists>post. s = p @ post"
  then show "startsWith s p"
    unfolding startsWith_def by auto
qed

lemma includes_str_iff: "includes_str s sub \<longleftrightarrow> (\<exists>pre post. s = pre @ sub @ post)"
proof (induction s)
  case Nil
  show ?case by auto
next
  case (Cons c s)
  show ?case
  proof
    assume "includes_str (c # s) sub"
    then consider "startsWith (c # s) sub" | "includes_str s sub" by auto
    then show "\<exists>pre post. c # s = pre @ sub @ post"
    proof cases
      case 1
      then obtain post where "c # s = sub @ post" using startsWith_iff by blast
      then have "c # s = [] @ sub @ post" by simp
      then show ?thesis by blast
    next
      case 2
      then obtain pre post where "s = pre @ sub @ post" using Cons.IH by blast
      then have "c # s = (c # pre) @ sub @ post" by simp
      then show ?thesis by blast
    qed
  next
    assume "\<exists>pre post. c # s = pre @ sub @ post"
    then obtain pre post where eq: "c # s = pre @ sub @ post" by blast
    show "includes_str (c # s) sub"
    proof (cases pre)
      case Nil
      with eq have "startsWith (c # s) sub" using startsWith_iff by auto
      then show ?thesis by simp
    next
      case (Cons d pre')
      with eq have "s = pre' @ sub @ post" by simp
      then have "includes_str s sub" using Cons.IH by blast
      then show ?thesis by simp
    qed
  qed
qed

lemma toLowerChar_idem: "toLowerChar (toLowerChar c) = toLowerChar c"
  by (auto simp add: toLowerChar_def)

lemma toLowerCase_idem: "toLowerCase (toLowerCase s) = toLowerCase s"
  by (simp add: toLowerCase_def toLowerChar_idem)

lemma toLowerCase_empty: "toLowerCase s = [] \<longleftrightarrow> s = []"
  by (simp add: toLowerCase_def)

text \<open>
  A request for the third page of the completed scans, with an empty start date and a
  search term in the filters, printed in decimal and without characters to encode; and a
  search of three loaded scans under the lower-casing of ASCII letters.
\<close>

lemma getScans_url_example:
  "getScans_url no_encoding toString \<lparr>skip = 20, limit = 10\<rparr>
     \<lparr>status = Some Completed, start_date = Some '''', end_date = None, search = Some ''example''\<rparr> =
   ''/scans/?skip=20&limit=10&status_filter=completed''"
  by (simp add: getScans_url_def getScans_params_def toString_def string_of_nat.simps
      no_encoding_def)

lemma filteredScans_example:
  "filteredScans toLowerCase ''EXAMPLE'' sample_scans =
   [sample_scan 1 ''https://Example.com/a'', sample_scan 3 ''http://www.example.com'']"
  by (simp add: filteredScans_def sample_scans_def sample_scan_def toLowerCase_def
      toLowerChar_def startsWith_def)

lemma filteredScans_same_lower:
  assumes "t \<noteq> []" and "t' \<noteq> []" and "lower t = lower t'"
  shows "filteredScans lower t scans = filteredScans lower t' scans"
  using assms by (simp add: filteredScans_def)

text \<open>
  C10. The request of \<^verbatim>\<open>getScans\<close> is \<^verbatim>\<open>/scans/?\<close> followed by the entries
  \<^verbatim>\<open>skip\<close> and \<^verbatim>\<open>limit\<close> with the printed numbers of the pagination, then
  \<^verbatim>\<open>status_filter\<close>, \<^verbatim>\<open>start_date\<close> and \<^verbatim>\<open>end_date\<close>, each exactly when its filter
  is set (and, for a date, not the empty string) and with the filter's value, joined by
  \<^verbatim>\<open>&\<close>, and nothing else. The \<^verbatim>\<open>search\<close> field of the filters changes neither the
  entries nor the requested URL. The search of the history component returns scans of the
  loaded list only: the loaded list itself for an empty term, and otherwise the loaded scans
  whose lower-cased URL contains the lower-cased term as a substring. Two terms with the
  same lower-case form select the same scans, and two URLs with the same lower-case form are
  selected alike.
\<close>

theorem getScans_query_and_client_side_search:
  "getScans_url enc num p f =
     ''/scans/?'' @ enc ''skip'' @ ''='' @ enc (num (skip p)) @
     ''&'' @ enc ''limit'' @ ''='' @ enc (num (limit p)) @
     (case status f of
        None \<Rightarrow> []
      | Some st \<Rightarrow> ''&'' @ enc ''status_filter'' @ ''='' @ enc (status_string st)) @
     (case start_date f of
        None \<Rightarrow> []
      | Some d \<Rightarrow> if d = [] then [] else ''&'' @ enc ''start_date'' @ ''='' @ enc d) @
     (case end_date f of
        None \<Rightarrow> []
      | Some d \<Rightarrow> if d = [] then [] else ''&'' @ enc ''end_date'' @ ''='' @ enc d) \<and>
   getScans_url enc num p f = ''/scans/?'' @ URLSearchParams_toString enc (getScans_params num p f) \<and>
   map fst (getScans_params num p f) =
     [''skip'', ''limit''] @
     (if status f \<noteq> None then [''status_filter''] else []) @
     (if truthy_string (start_date f) then [''start_date''] else []) @
     (if truthy_string (end_date f) then [''end_date''] else []) \<and>
   map_of (getScans_params num p f) ''skip'' = Some (num (skip p)) \<and>
   map_of (getScans_params num p f) ''limit'' = Some (num (limit p)) \<and>
   map_of (getScans_params num p f) ''status_filter'' = map_option status_string (status f) \<and>
   map_of (getScans_params num p f) ''start_date'' =
     (if truthy_string (start_date f) then start_date f else None) \<and>
   map_of (getScans_params num p f) ''end_date'' =
     (if truthy_string (end_date f) then end_date f else None) \<and>
   getScans_params num p (f\<lparr>search := q\<rparr>) = getScans_params num p f \<and>
   getScans_url enc num p (f\<lparr>search := q\<rparr>) = getScans_url enc num p f \<and>
   set (filteredScans lower t scans) \<subseteq> set scans \<and>
   filteredScans lower '''' scans = scans \<and>
   (scan \<in> set (filteredScans lower t scans) \<longleftrightarrow>
      scan \<in> set scans \<and>
      (t = '''' \<or> (\<exists>pre post. lower (url scan) = pre @ lower t @ post))) \<and>
   (t \<noteq> '''' \<and> t' \<noteq> '''' \<and> lower t = lower t' \<longrightarrow>
      filteredScans lower t scans = filteredScans lower t' scans) \<and>
   (lower (url a) = lower (url b) \<longrightarrow>
      (a \<in> set (filteredScans lower t [a]) \<longleftrightarrow> b \<in> set (filteredScans lower t [b]))) \<and>
   filteredScans toLowerCase (toLowerCase t) scans = filteredScans toLowerCase t scans"
proof -
  have request: "getScans_url enc num p f =
     ''/scans/?'' @ enc ''skip'' @ ''='' @ enc (num (skip p)) @
     ''&'' @ enc ''limit'' @ ''='' @ enc (num (limit p)) @
     (case status f of
        None \<Rightarrow> []
      | Some st \<Rightarrow> ''&'' @ enc ''status_filter'' @ ''='' @ enc (status_string st)) @
     (case start_date f of
        None \<Rightarrow> []
      | Some d \<Rightarrow> if d = [] then [] else ''&'' @ enc ''start_date'' @ ''='' @ enc d) @
     (case end_date f of
        None \<Rightarrow> []
      | Some d \<Rightarrow> if d = [] then [] else ''&'' @ enc ''end_date'' @ ''='' @ enc d)"
    by (simp add: getScans_url_def getScans_params_def split: option.splits)
  have serialised: "getScans_url enc num p f =
      ''/scans/?'' @ URLSearchParams_toString enc (getScans_params num p f)"
    by (simp add: getScans_url_def)
  have keys: "map fst (getScans_params num p f) =
     [''skip'', ''limit''] @
     (if status f \<noteq> None then [''status_filter''] else []) @
     (if truthy_string (start_date f) then [''start_date''] else []) @
     (if truthy_string (end_date f) then [''end_date''] else [])"
    by (simp add: getScans_params_def truthy_string_def split: option.splits)
  have paging: "map_of (getScans_params num p f) ''skip'' = Some (num (skip p))"
    "map_of (getScans_params num p f) ''limit'' = Some (num (limit p))"
    by (simp_all add: getScans_params_def)
  have by_status: "map_of (getScans_params num p f) ''status_filter'' =
      map_option status_string (status f)"
    by (simp add: getScans_params_def split: option.splits)
  have by_start: "map_of (getScans_params num p f) ''start_date'' =
     (if truthy_string (start_date f) then start_date f else None)"
    by (simp add: getScans_params_def truthy_string_def split: option.splits)
  have by_end: "map_of (getScans_params num p f) ''end_date'' =
     (if truthy_string (end_date f) then end_date f else None)"
    by (simp add: getScans_params_def truthy_string_def split: option.splits)
  have no_search: "getScans_params num p (f\<lparr>search := q\<rparr>) = getScans_params num p f"
    by (simp add: getScans_params_def)
  then have no_search_url: "getScans_url enc num p (f\<lparr>search := q\<rparr>) = getScans_url enc num p f"
    by (simp add: getScans_url_def)
  have loaded_only: "set (filteredScans lower t scans) \<subseteq> set scans"
    by (simp add: filteredScans_def)
  have empty_term: "filteredScans lower '''' scans = scans"
    by (simp add: filteredScans_def)
  have member: "scan \<in> set (filteredScans lower t scans) \<longleftrightarrow>
      scan \<in> set scans \<and>
      (t = '''' \<or> (\<exists>pre post. lower (url scan) = pre @ lower t @ post))"
    by (auto simp add: filteredScans_def includes_str_iff)
  have same_term: "filteredScans lower t scans = filteredScans lower t' scans"
    if "t \<noteq> '''' \<and> t' \<noteq> '''' \<and> lower t = lower t'"
    using that by (simp add: filteredScans_same_lower)
  have same_url: "a \<in> set (filteredScans lower t [a]) \<longleftrightarrow> b \<in> set (filteredScans lower t [b])"
    if "lower (url a) = lower (url b)"
    using that by (simp add: filteredScans_def)
  have ascii_case: "filteredScans toLowerCase (toLowerCase t) scans = filteredScans toLowerCase t scans"
    by (simp add: filteredScans_def toLowerCase_idem toLowerCase_empty)
  from request serialised keys paging by_status by_start by_end no_search no_search_url
    loaded_only empty_term member same_term same_url ascii_case
  show ?thesis by blast
qed

theorem getScans_query_and_client_side_search_witness:
  "''EXAMPLE'' \<noteq> '''' \<and> ''example'' \<noteq> '''' \<and>
   toLowerCase ''EXAMPLE'' = toLowerCase ''example'' \<and>
   filteredScans toLowerCase ''EXAMPLE'' sample_scans =
     filteredScans toLowerCase ''example'' sample_scans \<and>
   filteredScans toLowerCase ''EXAMPLE'' sample_scans =
     [sample_scan 1 ''https://Example.com/a'', sample_scan 3 ''http://www.example.com''] \<and>
   toLowerCase (url (sample_scan 1 ''https://Example.com/a'')) =
     toLowerCase (url (sample_scan 1 ''HTTPS://EXAMPLE.COM/A'')) \<and>
   sample_scan 1 ''https://Example.com/a'' \<in>
     set (filteredScans toLowerCase ''EXAMPLE'' [sample_scan 1 ''https://Example.com/a'']) \<and>
   sample_scan 1 ''HTTPS://EXAMPLE.COM/A'' \<in>
     set (filteredScans toLowerCase ''EXAMPLE'' [sample_scan 1 ''HTTPS://EXAMPLE.COM/A'']) \<and>
   getScans_url no_encoding toString \<lparr>skip = 20, limit = 10\<rparr>
     \<lparr>status = Some Completed, start_date = Some '''', end_date = None, search = Some ''example''\<rparr> =
   ''/scans/?skip=20&limit=10&status_filter=completed''"
proof -
  let ?a = "sample_scan 1 ''https://Example.com/a''"
  let ?b = "sample_scan 1 ''HTTPS://EXAMPLE.COM/A''"
  note th = getScans_query_and_client_side_search [where lower = toLowerCase
      and t = "''EXAMPLE''" and t' = "''example''" and scans = sample_scans
      and a = ?a and b = ?b]
  have terms: "''EXAMPLE'' \<noteq> '''' \<and> ''example'' \<noteq> '''' \<and>
      toLowerCase ''EXAMPLE'' = toLowerCase ''example''"
    by (simp add: toLowerCase_def toLowerChar_def)
  have urls: "toLowerCase (url ?a) = toLowerCase (url ?b)"
    by (simp add: sample_scan_def toLowerCase_def toLowerChar_def)
  have found: "?a \<in> set (filteredScans toLowerCase ''EXAMPLE'' [?a])"
    by (simp add: filteredScans_def sample_scan_def toLowerCase_def toLowerChar_def
        startsWith_def)
  from th terms
  have same: "filteredScans toLowerCase ''EXAMPLE'' sample_scans =
     filteredScans toLowerCase ''example'' sample_scans"
    by blast
  from th urls found
  have alike: "?b \<in> set (filteredScans toLowerCase ''EXAMPLE'' [?b])"
    by blast
  from terms same filteredScans_example urls found alike getScans_url_example
  show ?thesis by blast
qed

section \<open>The URL form schema and the scheme of a URL\<close>

lemma url_scheme_http: "startsWith u ''http://'' \<Longrightarrow> url_scheme u = Some ''http''"
proof -
  assume "startsWith u ''http://''"
  then obtain rest where "u = ''http://'' @ rest"
    using startsWith_iff by blast
  then show ?thesis
    by (simp add: url_scheme_def toLowerCase_def toLowerChar_def)
qed

lemma url_scheme_https: "startsWith u ''https://'' \<Longrightarrow> url_scheme u = Some ''https''"
proof -
  assume "startsWith u ''https://''"
  then obtain rest where "u = ''https://'' @ rest"
    using startsWith_iff by blast
  then show ?thesis
    by (simp add: url_scheme_def toLowerCase_def toLowerChar_def)
qed

text \<open>
  C6, as stated, at \<^verbatim>\<open>HTTP://example.com\<close> and at \<^verbatim>\<open>http:example.com\<close>: both
  have the scheme \<^verbatim>\<open>http\<close>, both pass the \<^verbatim>\<open>url()\<close> check of a parser that accepts
  them, and both are rejected by the prefix refinement alone.
\<close>

theorem urlSchema_rejects_http_scheme_counterexample:
  "url_scheme ''HTTP://example.com'' = Some ''http'' \<and>
   urlSchema url_check_passes ''HTTP://example.com'' = Inl [''URL must start with http:// or https://''] \<and>
   url_scheme ''http:example.com'' = Some ''http'' \<and>
   urlSchema url_check_passes ''http:example.com'' = Inl [''URL must start with http:// or https://'']"
  by (simp add: url_scheme_def toLowerCase_def toLowerChar_def urlSchema_def urlSchema_issues_def
      startsWith_def url_check_passes_def)

text \<open>
  C6, amended. The schema rejects every raw URL whose scheme is not \<^verbatim>\<open>http\<close> or
  \<^verbatim>\<open>https\<close>, with the prefix message among its issues. It raises the prefix issue
  exactly when the string does not begin with the literal \<^verbatim>\<open>http://\<close> or
  \<^verbatim>\<open>https://\<close>; a string that begins so is not rejected on these grounds, and is
  accepted exactly when it also passes the \<^verbatim>\<open>url()\<close> check.
\<close>

theorem urlSchema_scheme_check:
  "(url_scheme u \<noteq> Some ''http'' \<and> url_scheme u \<noteq> Some ''https'' \<longrightarrow>
      (\<exists>issues. urlSchema is_url u = Inl issues \<and>
         ''URL must start with http:// or https://'' \<in> set issues)) \<and>
   (''URL must start with http:// or https://'' \<in> set (urlSchema_issues is_url u) \<longleftrightarrow>
      \<not> (startsWith u ''http://'' \<or> startsWith u ''https://'')) \<and>
   (startsWith u ''http://'' \<or> startsWith u ''https://'' \<longrightarrow>
      (urlSchema is_url u = Inr u \<longleftrightarrow> is_url u) \<and>
      (\<forall>issues. urlSchema is_url u = Inl issues \<longrightarrow> issues = [''Please enter a valid URL'']))"
proof (intro conjI impI)
  show prefix_issue: "''URL must start with http:// or https://'' \<in> set (urlSchema_issues is_url u) \<longleftrightarrow>
      \<not> (startsWith u ''http://'' \<or> startsWith u ''https://'')"
    by (simp add: urlSchema_issues_def)
  assume other: "url_scheme u \<noteq> Some ''http'' \<and> url_scheme u \<noteq> Some ''https''"
  then have "\<not> (startsWith u ''http://'' \<or> startsWith u ''https://'')"
    using url_scheme_http url_scheme_https by blast
  with prefix_issue have "''URL must start with http:// or https://'' \<in> set (urlSchema_issues is_url u)"
    by simp
  moreover from this have "urlSchema_issues is_url u \<noteq> []" by auto
  ultimately show "\<exists>issues. urlSchema is_url u = Inl issues \<and>
         ''URL must start with http:// or https://'' \<in> set issues"
    by (simp add: urlSchema_def)
next
  assume literal: "startsWith u ''http://'' \<or> startsWith u ''https://''"
  then have "u \<noteq> []" by (auto simp add: startsWith_def)
  with literal have issues: "urlSchema_issues is_url u = (if is_url u then [] else [''Please enter a valid URL''])"
    by (simp add: urlSchema_issues_def)
  show "urlSchema is_url u = Inr u \<longleftrightarrow> is_url u"
    by (simp add: urlSchema_def issues)
  show "\<forall>issues. urlSchema is_url u = Inl issues \<longrightarrow> issues = [''Please enter a valid URL'']"
    by (simp add: urlSchema_def issues)
qed

theorem urlSchema_scheme_check_witness:
  "url_scheme ''ftp://example.com'' \<noteq> Some ''http'' \<and>
   url_scheme ''ftp://example.com'' \<noteq> Some ''https'' \<and>
   (\<exists>issues. urlSchema url_check_passes ''ftp://example.com'' = Inl issues \<and>
      ''URL must start with http:// or https://'' \<in> set issues) \<and>
   urlSchema url_check_passes ''ftp://example.com'' = Inl [''URL must start with http:// or https://''] \<and>
   startsWith ''https://example.com'' ''https://'' \<and>
   urlSchema url_check_passes ''https://example.com'' = Inr ''https://example.com'' \<and>
   urlSchema url_check_fails ''https://example.com'' = Inl [''Please enter a valid URL'']"
proof -
  have other: "url_scheme ''ftp://example.com'' \<noteq> Some ''http'' \<and>
      url_scheme ''ftp://example.com'' \<noteq> Some ''https''"
    by (simp add: url_scheme_def toLowerCase_def toLowerChar_def)
  have literal: "startsWith ''https://example.com'' ''https://''"
    by (simp add: startsWith_def)
  have rejected: "\<exists>issues. urlSchema url_check_passes ''ftp://example.com'' = Inl issues \<and>
      ''URL must start with http:// or https://'' \<in> set issues"
    by (rule urlSchema_scheme_check [of "''ftp://example.com''" url_check_passes,
          THEN conjunct1, THEN mp, OF other])
  have issues: "urlSchema url_check_passes ''ftp://example.com'' = Inl [''URL must start with http:// or https://'']"
    by (simp add: urlSchema_def urlSchema_issues_def startsWith_def url_check_passes_def)
  from literal
  have prefixed: "startsWith ''https://example.com'' ''http://'' \<or> startsWith ''https://example.com'' ''https://''" ..
  then have "urlSchema url_check_passes ''https://example.com'' = Inr ''https://example.com'' \<longleftrightarrow>
      url_check_passes ''https://example.com''"
    by (rule urlSchema_scheme_check [of "''https://example.com''" url_check_passes,
          THEN conjunct2, THEN conjunct2, THEN mp, THEN conjunct1])
  then have accepted: "urlSchema url_check_passes ''https://example.com'' = Inr ''https://example.com''"
    by (simp add: url_check_passes_def)
  have not_a_url: "urlSchema url_check_fails ''https://example.com'' = Inl [''Please enter a valid URL'']"
    by (simp add: urlSchema_def urlSchema_issues_def startsWith_def url_check_fails_def)
  from prefixed
  have "\<forall>issues. urlSchema url_check_fails ''https://example.com'' = Inl issues \<longrightarrow>
      issues = [''Please enter a valid URL'']"
    by (rule urlSchema_scheme_check [of "''https://example.com''" url_check_fails,
          THEN conjunct2, THEN conjunct2, THEN mp, THEN conjunct2])
  from other rejected issues literal accepted not_a_url show ?thesis
    by (intro conjI) (rule conjunct1, assumption, rule conjunct2, assumption, assumption+)
qed

section \<open>The classifier\<close>

text \<open>
  C7. The classifier yields one image row for every image reference. Without an
  \<^verbatim>\<open>alt\<close> attribute the row has \<^verbatim>\<open>has_alt_text = false\<close> and
  \<^verbatim>\<open>is_decorative = false\<close>; with \<^verbatim>\<open>alt=""\<close> it has \<^verbatim>\<open>has_alt_text = true\<close> and
  \<^verbatim>\<open>is_decorative = true\<close>; with \<^verbatim>\<open>alt="x"\<close> it has \<^verbatim>\<open>has_alt_text = true\<close>,
  \<^verbatim>\<open>is_decorative = false\<close> and \<^verbatim>\<open>alt_text_length = 1\<close>, and in general the length
  of a non-empty alt text. The length is absent exactly when the alt text is empty or
  missing.
\<close>

theorem classify_alt_cases:
  "(\<exists>!d. classify row sid now r = d) \<and>
   (alt r = None \<longrightarrow>
      \<not> has_alt_text (classify row sid now r) \<and> \<not> is_decorative (classify row sid now r)) \<and>
   (alt r = Some '''' \<longrightarrow>
      has_alt_text (classify row sid now r) \<and> is_decorative (classify row sid now r)) \<and>
   (alt r = Some ''x'' \<longrightarrow>
      has_alt_text (classify row sid now r) \<and> \<not> is_decorative (classify row sid now r) \<and>
      alt_text_length (classify row sid now r) = Some 1) \<and>
   (alt r = Some a \<and> a \<noteq> '''' \<longrightarrow>
      has_alt_text (classify row sid now r) \<and> \<not> is_decorative (classify row sid now r) \<and>
      alt_text_length (classify row sid now r) = Some (int (length a))) \<and>
   (alt_text_length (classify row sid now r) = None \<longleftrightarrow> alt r = None \<or> alt r = Some '''')"
proof -
  have one_row: "\<exists>!d. classify row sid now r = d" by simp
  have absent: "alt r = None \<longrightarrow>
      \<not> has_alt_text (classify row sid now r) \<and> \<not> is_decorative (classify row sid now r)"
    by (simp add: classify_def)
  have empty: "alt r = Some '''' \<longrightarrow>
      has_alt_text (classify row sid now r) \<and> is_decorative (classify row sid now r)"
    by (simp add: classify_def)
  have worded: "alt r = Some b \<and> b \<noteq> '''' \<longrightarrow>
      has_alt_text (classify row sid now r) \<and> \<not> is_decorative (classify row sid now r) \<and>
      alt_text_length (classify row sid now r) = Some (int (length b))" for b
    by (simp add: classify_def)
  have letter: "alt r = Some ''x'' \<longrightarrow>
      has_alt_text (classify row sid now r) \<and> \<not> is_decorative (classify row sid now r) \<and>
      alt_text_length (classify row sid now r) = Some 1"
    using worded [of "''x''"] by simp
  have no_length: "alt_text_length (classify row sid now r) = None \<longleftrightarrow>
      alt r = None \<or> alt r = Some ''''"
    by (cases "alt r") (simp_all add: classify_def)
  from one_row absent empty letter worded [of a] no_length show ?thesis by blast
qed

theorem classify_alt_cases_witness:
  "alt (sample_ref None) = None \<and>
   \<not> has_alt_text (classify 1 1 ''t'' (sample_ref None)) \<and>
   \<not> is_decorative (classify 1 1 ''t'' (sample_ref None)) \<and>
   alt (sample_ref (Some '''')) = Some '''' \<and>
   has_alt_text (classify 2 1 ''t'' (sample_ref (Some ''''))) \<and>
   is_decorative (classify 2 1 ''t'' (sample_ref (Some ''''))) \<and>
   alt (sample_ref (Some ''x'')) = Some ''x'' \<and>
   has_alt_text (classify 3 1 ''t'' (sample_ref (Some ''x''))) \<and>
   \<not> is_decorative (classify 3 1 ''t'' (sample_ref (Some ''x''))) \<and>
   alt_text_length (classify 3 1 ''t'' (sample_ref (Some ''x''))) = Some 1 \<and>
   alt (sample_ref (Some ''A cat'')) = Some ''A cat'' \<and> ''A cat'' \<noteq> '''' \<and>
   alt_text_length (classify 4 1 ''t'' (sample_ref (Some ''A cat''))) = Some 5"
proof -
  have a: "alt (sample_ref None) = None"
    and b: "alt (sample_ref (Some '''')) = Some ''''"
    and c: "alt (sample_ref (Some ''x'')) = Some ''x''"
    and d: "alt (sample_ref (Some ''A cat'')) = Some ''A cat'' \<and> ''A cat'' \<noteq> ''''"
    by (simp_all add: sample_ref_def)
  note absent = classify_alt_cases [of 1 1 "''t''" "sample_ref None" "''x''",
      THEN conjunct2, THEN conjunct1, THEN mp, OF a]
  note empty = classify_alt_cases [of 2 1 "''t''" "sample_ref (Some '''')" "''x''",
      THEN conjunct2, THEN conjunct2, THEN conjunct1, THEN mp, OF b]
  note letter = classify_alt_cases [of 3 1 "''t''" "sample_ref (Some ''x'')" "''x''",
      THEN conjunct2, THEN conjunct2, THEN conjunct2, THEN conjunct1, THEN mp, OF c]
  note worded = classify_alt_cases [of 4 1 "''t''" "sample_ref (Some ''A cat'')" "''A cat''",
      THEN conjunct2, THEN conjunct2, THEN conjunct2, THEN conjunct2, THEN conjunct1, THEN mp,
      OF d]
  from worded have cat: "alt_text_length (classify 4 1 ''t'' (sample_ref (Some ''A cat''))) = Some 5"
    by simp
  from a b c d absent empty letter cat show ?thesis by blast
qed

section \<open>The coverage percentage\<close>

lemma round_half_up_1_tenths: "\<exists>k::int. round_half_up_1 x = of_int k / 10"
  unfolding round_half_up_1_def by blast

lemma round_half_up_1_near: "\<bar>round_half_up_1 x - x\<bar> \<le> 1 / 20"
proof -
  let ?k = "\<lfloor>x * 10 + 1 / 2\<rfloor>"
  have lower: "of_int ?k \<le> x * 10 + 1 / 2"
    by (rule of_int_floor_le)
  have upper: "x * 10 + 1 / 2 < of_int ?k + 1"
    using floor_correct [of "x * 10 + 1 / 2"] by simp
  have tenths: "round_half_up_1 x * 10 = of_int ?k"
    by (simp add: round_half_up_1_def)
  from lower upper tenths show ?thesis
    by linarith
qed

lemma round_half_up_1_tie:
  assumes "x * 10 = of_int m + 1 / 2"
  shows "round_half_up_1 x = (of_int m + 1) / 10"
proof -
  have "x * 10 + 1 / 2 = of_int (m + 1)"
    using assms by simp
  then have "\<lfloor>x * 10 + 1 / 2\<rfloor> = m + 1"
    by (simp only: floor_of_int)
  then show ?thesis
    by (simp add: round_half_up_1_def)
qed

lemma coverage_percentage_div:
  assumes "0 < t"
  shows "coverage_percentage w t = of_int ((2000 * w + t) div (2 * t)) / 10"
proof -
  from assms have nz: "(of_int t :: rat) \<noteq> 0" by simp
  have "of_int w / of_int t * 100 * 10 + 1 / 2 = (of_int (2000 * w + t) :: rat) / of_int (2 * t)"
    using nz by (simp add: field_simps)
  then have "\<lfloor>of_int w / of_int t * 100 * 10 + 1 / 2 :: rat\<rfloor> = (2000 * w + t) div (2 * t)"
    by (simp only: floor_divide_of_int_eq)
  with assms show ?thesis
    by (simp add: coverage_percentage_def round_half_up_1_def)
qed

lemma coverage_two_of_three: "coverage_percentage 2 3 = 667 / 10"
  using coverage_percentage_div [of 3 2] by simp

section \<open>The counts of a scan through its lifecycle\<close>

lemma aggregate_counts:
  "agg_total_images (aggregate ds) = int (length ds)"
  "agg_images_with_alt (aggregate ds) = int (length (filter has_alt_text ds))"
  "agg_images_missing_alt (aggregate ds) = int (length (filter (\<lambda>d. \<not> has_alt_text d) ds))"
  by (simp_all add: aggregate_def Let_def)

lemma aggregate_sum:
  "agg_total_images (aggregate ds) = agg_images_with_alt (aggregate ds) + agg_images_missing_alt (aggregate ds)"
proof -
  have "length (filter has_alt_text ds) + length (filter (\<lambda>d. \<not> has_alt_text d) ds) = length ds"
    by (rule sum_length_filter_compl)
  then show ?thesis
    unfolding aggregate_counts by linarith
qed

lemma completed_consistentI:
  assumes "\<And>i s. scan_rows e i = Some s \<Longrightarrow> scan_status s = Completed \<Longrightarrow> counts_consistent s"
  shows "completed_consistent e"
  using assms unfolding completed_consistent_def by blast

lemma completed_consistentD:
  assumes "completed_consistent e" and "scan_rows e i = Some s" and "scan_status s = Completed"
  shows "counts_consistent s"
  using assms unfolding completed_consistent_def by blast

lemma completed_consistent_empty: "completed_consistent empty_engine"
  by (simp add: completed_consistent_def empty_engine_def)

text \<open>Storing a record keeps the invariant when the record is consistent or not completed.\<close>

lemma completed_consistent_store:
  assumes inv: "completed_consistent e"
    and new: "scan_status s' = Completed \<Longrightarrow> counts_consistent s'"
    and rows: "scan_rows e' = (scan_rows e)(i \<mapsto> s')"
  shows "completed_consistent e'"
proof (rule completed_consistentI)
  fix j s
  assume stored: "scan_rows e' j = Some s" and is_completed: "scan_status s = Completed"
  show "counts_consistent s"
  proof (cases "j = i")
    case True
    with stored rows have "s = s'" by simp
    with is_completed new show ?thesis by simp
  next
    case False
    with stored rows have old: "scan_rows e j = Some s" by simp
    from inv old is_completed show ?thesis by (rule completed_consistentD)
  qed
qed

lemma complete_scan_result:
  assumes "fst (complete_scan i ds duration now e) = Inr s"
  shows "scan_status s = Completed \<and> counts_consistent s \<and>
    total_images s = int (length ds) \<and>
    images_with_alt s = int (length (filter has_alt_text ds)) \<and>
    images_missing_alt s = int (length (filter (\<lambda>d. \<not> has_alt_text d) ds)) \<and>
    alt_text_coverage_percentage s = coverage_percentage (images_with_alt s) (total_images s) \<and>
    scan_rows (snd (complete_scan i ds duration now e)) i = Some s \<and>
    image_rows (snd (complete_scan i ds duration now e)) i = ds"
proof (cases "scan_rows e i")
  case None
  with assms show ?thesis by (simp add: complete_scan_def)
next
  case (Some s0)
  show ?thesis
  proof (cases "scan_status s0 = Running")
    case False
    with Some assms show ?thesis by (simp add: complete_scan_def)
  next
    case True
    with Some assms have s: "s = s0\<lparr>total_images := agg_total_images (aggregate ds),
        images_with_alt := agg_images_with_alt (aggregate ds),
        images_missing_alt := agg_images_missing_alt (aggregate ds),
        scan_status := Completed,
        alt_text_coverage_percentage := agg_coverage_percentage (aggregate ds),
        scan_duration_ms := Some duration, updated_at := now\<rparr>"
      by (simp add: complete_scan_def Let_def)
    have cov: "agg_coverage_percentage (aggregate ds) =
        coverage_percentage (agg_images_with_alt (aggregate ds)) (agg_total_images (aggregate ds))"
      by (simp add: aggregate_def Let_def)
    have "counts_consistent s"
      unfolding counts_consistent_def s using aggregate_sum [of ds]
      by (simp add: aggregate_counts)
    moreover from Some True have "scan_rows (snd (complete_scan i ds duration now e)) i = Some s"
      and "image_rows (snd (complete_scan i ds duration now e)) i = ds"
      unfolding s by (simp_all add: complete_scan_def Let_def)
    ultimately show ?thesis
      unfolding s using cov by (simp add: aggregate_counts)
  qed
qed

lemma RequestScan_consistent:
  assumes "completed_consistent e"
  shows "completed_consistent (snd (RequestScan i u uid now e))"
proof (cases "scan_rows e i")
  case (Some s)
  with assms show ?thesis by (simp add: RequestScan_def)
next
  case None
  show ?thesis
    by (rule completed_consistent_store [OF assms, where i = i])
      (simp_all add: RequestScan_def None Let_def)
qed

lemma start_scan_consistent:
  assumes "completed_consistent e"
  shows "completed_consistent (snd (start_scan i now e))"
proof (cases "scan_rows e i")
  case None
  with assms show ?thesis by (simp add: start_scan_def)
next
  case (Some s)
  show ?thesis
  proof (cases "scan_status s = Pending")
    case False
    with Some assms show ?thesis by (simp add: start_scan_def)
  next
    case True
    show ?thesis
      by (rule completed_consistent_store [OF assms, where i = i and s' = "s\<lparr>scan_status := Running, updated_at := now\<rparr>"])
        (simp_all add: start_scan_def Some True Let_def)
  qed
qed

lemma complete_scan_consistent:
  assumes "completed_consistent e"
  shows "completed_consistent (snd (complete_scan i ds duration now e))"
proof (cases "fst (complete_scan i ds duration now e)")
  case (Inl err)
  then have "snd (complete_scan i ds duration now e) = e"
    by (auto simp add: complete_scan_def Let_def split: option.splits if_splits)
  with assms show ?thesis by simp
next
  case (Inr s)
  note result = complete_scan_result [OF Inr]
  from Inr have rows: "scan_rows (snd (complete_scan i ds duration now e)) = (scan_rows e)(i \<mapsto> s)"
    by (auto simp add: complete_scan_def Let_def split: option.splits if_splits)
  from assms _ rows show ?thesis
    by (rule completed_consistent_store) (simp add: result)
qed

lemma fail_scan_consistent:
  assumes "completed_consistent e"
  shows "completed_consistent (snd (fail_scan i message duration now e))"
proof (cases "scan_rows e i")
  case None
  with assms show ?thesis by (simp add: fail_scan_def)
next
  case (Some s)
  show ?thesis
  proof (cases "scan_status s = Pending \<or> scan_status s = Running")
    case False
    with Some assms show ?thesis by (simp add: fail_scan_def)
  next
    case True
    show ?thesis
      by (rule completed_consistent_store [OF assms, where i = i
            and s' = "s\<lparr>scan_status := Failed, error_message := Some message,
              scan_duration_ms := Some duration, updated_at := now\<rparr>"])
        (use True in \<open>simp_all add: fail_scan_def Some Let_def\<close>)
  qed
qed

lemma RetryScan_consistent:
  assumes "completed_consistent e"
  shows "completed_consistent (snd (RetryScan i now e))"
proof (cases "scan_rows e i")
  case None
  with assms show ?thesis by (simp add: RetryScan_def)
next
  case (Some s)
  show ?thesis
  proof (cases "scan_status s = Failed")
    case False
    with Some assms show ?thesis by (simp add: RetryScan_def)
  next
    case True
    show ?thesis
      by (rule completed_consistent_store [OF assms, where i = i
            and s' = "s\<lparr>scan_status := Pending, error_message := None, updated_at := now\<rparr>"])
        (simp_all add: RetryScan_def Some True Let_def)
  qed
qed

lemma apply_op_consistent:
  assumes "completed_consistent e"
  shows "completed_consistent (snd (apply_op op e))"
proof (cases op)
  case (Create i u uid now)
  with assms show ?thesis by (simp add: RequestScan_consistent)
next
  case (Run i now)
  with assms show ?thesis by (simp add: start_scan_consistent)
next
  case (Complete i ds duration now)
  with assms show ?thesis by (simp add: complete_scan_consistent)
next
  case (Fail i message duration now)
  with assms show ?thesis by (simp add: fail_scan_consistent)
next
  case (Retry i now)
  with assms show ?thesis by (simp add: RetryScan_consistent)
qed

lemma run_ops_consistent:
  "completed_consistent e \<Longrightarrow> completed_consistent (run_ops ops e)"
proof (induction ops arbitrary: e)
  case Nil
  then show ?case by simp
next
  case (Cons op ops)
  from Cons.prems have "completed_consistent (snd (apply_op op e))"
    by (rule apply_op_consistent)
  then have "completed_consistent (run_ops ops (snd (apply_op op e)))"
    by (rule Cons.IH)
  then show ?case by simp
qed

text \<open>
  C3. Every completed scan has non-negative counts with
  \<^verbatim>\<open>total_images = images_with_alt + images_missing_alt\<close>: the property holds of the
  empty store, every lifecycle operation (create, run, complete, fail, retry) preserves it,
  accepted or rejected, and so it holds after every sequence of operations. The scan that
  a completion stores is completed and carries the counts of its image rows.
\<close>

theorem completed_counts_invariant:
  "completed_consistent empty_engine \<and>
   (completed_consistent e \<longrightarrow> completed_consistent (snd (apply_op op e))) \<and>
   completed_consistent (run_ops ops empty_engine) \<and>
   (scan_rows (run_ops ops empty_engine) j = Some c \<and> scan_status c = Completed \<longrightarrow>
      0 \<le> total_images c \<and> 0 \<le> images_with_alt c \<and> 0 \<le> images_missing_alt c \<and>
      total_images c = images_with_alt c + images_missing_alt c) \<and>
   (fst (complete_scan i ds duration now e) = Inr s \<longrightarrow>
      scan_status s = Completed \<and> counts_consistent s \<and>
      total_images s = int (length ds) \<and>
      images_with_alt s = int (length (filter has_alt_text ds)) \<and>
      images_missing_alt s = int (length (filter (\<lambda>d. \<not> has_alt_text d) ds)))"
proof -
  have reachable: "completed_consistent (run_ops ops empty_engine)"
    using completed_consistent_empty by (rule run_ops_consistent)
  have counts: "0 \<le> total_images c \<and> 0 \<le> images_with_alt c \<and> 0 \<le> images_missing_alt c \<and>
      total_images c = images_with_alt c + images_missing_alt c"
    if "scan_rows (run_ops ops empty_engine) j = Some c" and "scan_status c = Completed"
    using completed_consistentD [OF reachable that] by (simp add: counts_consistent_def)
  have completion: "scan_status s = Completed \<and> counts_consistent s \<and>
      total_images s = int (length ds) \<and>
      images_with_alt s = int (length (filter has_alt_text ds)) \<and>
      images_missing_alt s = int (length (filter (\<lambda>d. \<not> has_alt_text d) ds))"
    if "fst (complete_scan i ds duration now e) = Inr s"
    using complete_scan_result [OF that] by simp
  from completed_consistent_empty apply_op_consistent reachable counts completion
  show ?thesis by blast
qed

lemma scenario_a_run: "scan_rows (run_ops scenario_a_ops empty_engine) 1 = Some scenario_a_scan"
  by (simp add: scenario_a_ops_def scenario_a_images_def scenario_a_scan_def empty_engine_def
      RequestScan_def start_scan_def complete_scan_def aggregate_def classify_def sample_ref_def
      coverage_two_of_three Let_def)

theorem completed_counts_invariant_witness:
  "completed_consistent empty_engine \<and>
   completed_consistent (snd (apply_op (Run 1 ''t1'') empty_engine)) \<and>
   completed_consistent (run_ops scenario_a_ops empty_engine) \<and>
   scan_rows (run_ops scenario_a_ops empty_engine) 1 = Some scenario_a_scan \<and>
   scan_status scenario_a_scan = Completed \<and>
   total_images scenario_a_scan = 3 \<and> images_with_alt scenario_a_scan = 2 \<and>
   images_missing_alt scenario_a_scan = 1 \<and>
   alt_text_coverage_percentage scenario_a_scan = 667 / 10 \<and>
   total_images scenario_a_scan = images_with_alt scenario_a_scan + images_missing_alt scenario_a_scan \<and>
   fst (complete_scan 1 scenario_a_images 120 ''t2''
      (run_ops [Create 1 ''https://example.com'' 7 ''t0'', Run 1 ''t1''] empty_engine)) =
     Inr scenario_a_scan \<and>
   counts_consistent scenario_a_scan \<and>
   total_images scenario_a_scan = int (length scenario_a_images)"
proof -
  let ?running = "run_ops [Create 1 ''https://example.com'' 7 ''t0'', Run 1 ''t1''] empty_engine"
  note th = completed_counts_invariant [where e = empty_engine and op = "Run 1 ''t1''"
      and ops = scenario_a_ops and j = 1 and c = scenario_a_scan]
  note th_completion = completed_counts_invariant [where e = ?running and i = 1
      and ds = scenario_a_images and duration = 120 and now = "''t2''" and s = scenario_a_scan]
  have completed: "scan_status scenario_a_scan = Completed"
    by (simp add: scenario_a_scan_def)
  have completion: "fst (complete_scan 1 scenario_a_images 120 ''t2'' ?running) = Inr scenario_a_scan"
    by (simp add: scenario_a_images_def scenario_a_scan_def empty_engine_def
        RequestScan_def start_scan_def complete_scan_def aggregate_def classify_def sample_ref_def
        coverage_two_of_three Let_def)
  from th have start: "completed_consistent empty_engine" by (rule conjunct1)
  with th have step: "completed_consistent (snd (apply_op (Run 1 ''t1'') empty_engine))" by blast
  from th have reach: "completed_consistent (run_ops scenario_a_ops empty_engine)" by blast
  from th scenario_a_run completed
  have sum: "total_images scenario_a_scan = images_with_alt scenario_a_scan + images_missing_alt scenario_a_scan"
    by blast
  from th_completion completion
  have stored: "counts_consistent scenario_a_scan"
    and total: "total_images scenario_a_scan = int (length scenario_a_images)"
    by blast+
  have fields: "total_images scenario_a_scan = 3" "images_with_alt scenario_a_scan = 2"
    "images_missing_alt scenario_a_scan = 1" "alt_text_coverage_percentage scenario_a_scan = 667 / 10"
    by (simp_all add: scenario_a_scan_def)
  from start step reach scenario_a_run completed fields sum completion stored total
  show ?thesis by blast
qed

section \<open>Retrying a scan\<close>

text \<open>
  C5. A retry of a scan whose status is \<^verbatim>\<open>completed\<close> or \<^verbatim>\<open>running\<close> is rejected
  with the invalid-transition error and leaves the store as it was, the scan record and
  its image rows included. A retry is accepted exactly for a stored scan whose status is
  \<^verbatim>\<open>failed\<close>, which becomes \<^verbatim>\<open>pending\<close> without error message and without image
  rows, and no rejected retry changes the store. In the client the Retry button is shown
  exactly for a failed scan, and a rejected request leaves the displayed scan unchanged.
\<close>

theorem RetryScan_only_from_failed:
  "(scan_rows e i = Some s \<and> (scan_status s = Completed \<or> scan_status s = Running) \<longrightarrow>
      RetryScan i now e = (Inl InvalidTransition, e) \<and>
      scan_rows (snd (RetryScan i now e)) i = Some s \<and>
      image_rows (snd (RetryScan i now e)) i = image_rows e i) \<and>
   ((\<exists>r. fst (RetryScan i now e) = Inr r) \<longleftrightarrow>
      (\<exists>f. scan_rows e i = Some f \<and> scan_status f = Failed)) \<and>
   ((\<nexists>r. fst (RetryScan i now e) = Inr r) \<longrightarrow> snd (RetryScan i now e) = e) \<and>
   (scan_rows e i = Some s \<and> scan_status s = Failed \<longrightarrow>
      fst (RetryScan i now e) =
        Inr (s\<lparr>scan_status := Pending, error_message := None, updated_at := now\<rparr>) \<and>
      image_rows (snd (RetryScan i now e)) i = []) \<and>
   (retry_button_shown v \<longleftrightarrow> (\<exists>f. view_scan v = Some f \<and> scan_status f = Failed)) \<and>
   view_scan (handleRetry (ErrorStatus code) v) = view_scan v \<and>
   view_scan (handleRetry NoResponse v) = view_scan v"
proof -
  have rejected: "RetryScan i now e = (Inl InvalidTransition, e) \<and>
      scan_rows (snd (RetryScan i now e)) i = Some s \<and>
      image_rows (snd (RetryScan i now e)) i = image_rows e i"
    if "scan_rows e i = Some s" and "scan_status s = Completed \<or> scan_status s = Running"
    using that by (auto simp add: RetryScan_def)
  have accepted_iff: "(\<exists>r. fst (RetryScan i now e) = Inr r) \<longleftrightarrow>
      (\<exists>f. scan_rows e i = Some f \<and> scan_status f = Failed)"
    by (cases "scan_rows e i") (simp_all add: RetryScan_def Let_def)
  have unchanged: "snd (RetryScan i now e) = e" if "\<nexists>r. fst (RetryScan i now e) = Inr r"
    using that by (cases "scan_rows e i") (auto simp add: RetryScan_def Let_def split: if_splits)
  have accepted: "fst (RetryScan i now e) =
        Inr (s\<lparr>scan_status := Pending, error_message := None, updated_at := now\<rparr>) \<and>
      image_rows (snd (RetryScan i now e)) i = []"
    if "scan_rows e i = Some s" and "scan_status s = Failed"
    using that by (simp add: RetryScan_def Let_def)
  have button: "retry_button_shown v \<longleftrightarrow> (\<exists>f. view_scan v = Some f \<and> scan_status f = Failed)"
    by (cases "view_scan v") (simp_all add: retry_button_shown_def)
  have view: "view_scan (handleRetry (ErrorStatus code) v) = view_scan v"
    "view_scan (handleRetry NoResponse v) = view_scan v"
    by (simp_all add: handleRetry_def)
  from rejected accepted_iff unchanged accepted button view show ?thesis by blast
qed

lemma failed_scan_run: "scan_rows (run_ops failed_scan_ops empty_engine) 1 = Some failed_scan"
  by (simp add: failed_scan_ops_def failed_scan_def empty_engine_def
      RequestScan_def start_scan_def fail_scan_def Let_def)

theorem RetryScan_only_from_failed_witness:
  "scan_rows (run_ops scenario_a_ops empty_engine) 1 = Some scenario_a_scan \<and>
   scan_status scenario_a_scan = Completed \<and>
   RetryScan 1 ''t3'' (run_ops scenario_a_ops empty_engine) =
     (Inl InvalidTransition, run_ops scenario_a_ops empty_engine) \<and>
   scan_rows (run_ops failed_scan_ops empty_engine) 1 = Some failed_scan \<and>
   scan_status failed_scan = Failed \<and>
   fst (RetryScan 1 ''t3'' (run_ops failed_scan_ops empty_engine)) =
     Inr (failed_scan\<lparr>scan_status := Pending, error_message := None, updated_at := ''t3''\<rparr>) \<and>
   image_rows (snd (RetryScan 1 ''t3'' (run_ops failed_scan_ops empty_engine))) 1 = []"
proof -
  have completed: "scan_status scenario_a_scan = Completed"
    by (simp add: scenario_a_scan_def)
  have failed: "scan_status failed_scan = Failed"
    by (simp add: failed_scan_def)
  note on_completed = RetryScan_only_from_failed [of "run_ops scenario_a_ops empty_engine" 1
      scenario_a_scan "''t3''" "\<lparr>view_scan = None, isRetrying = False\<rparr>" 409]
  note on_failed = RetryScan_only_from_failed [of "run_ops failed_scan_ops empty_engine" 1
      failed_scan "''t3''" "\<lparr>view_scan = None, isRetrying = False\<rparr>" 409]
  from on_completed scenario_a_run completed
  have rejected: "RetryScan 1 ''t3'' (run_ops scenario_a_ops empty_engine) =
     (Inl InvalidTransition, run_ops scenario_a_ops empty_engine)"
    by blast
  from on_failed failed_scan_run failed
  have accepted: "fst (RetryScan 1 ''t3'' (run_ops failed_scan_ops empty_engine)) =
     Inr (failed_scan\<lparr>scan_status := Pending, error_message := None, updated_at := ''t3''\<rparr>)"
    and cleared: "image_rows (snd (RetryScan 1 ''t3'' (run_ops failed_scan_ops empty_engine))) 1 = []"
    by blast+
  from scenario_a_run completed rejected failed_scan_run failed accepted cleared
  show ?thesis by blast
qed

section \<open>The coverage percentage of a stored scan\<close>

lemma coverage_percentage_rounding:
  assumes "t \<noteq> 0"
  shows "\<exists>k::int. coverage_percentage w t = of_int k / 10"
    and "\<bar>coverage_percentage w t - of_int w / of_int t * 100\<bar> \<le> 1 / 20"
    and "of_int w / of_int t * 100 * 10 = of_int m + (1 / 2 :: rat) \<Longrightarrow>
      coverage_percentage w t = (of_int m + 1) / 10"
proof -
  from assms have unfold: "coverage_percentage w t = round_half_up_1 (of_int w / of_int t * 100)"
    by (simp add: coverage_percentage_def)
  show "\<exists>k::int. coverage_percentage w t = of_int k / 10"
    unfolding unfold by (rule round_half_up_1_tenths)
  show "\<bar>coverage_percentage w t - of_int w / of_int t * 100\<bar> \<le> 1 / 20"
    unfolding unfold by (rule round_half_up_1_near)
  show "coverage_percentage w t = (of_int m + 1) / 10"
    if "of_int w / of_int t * 100 * 10 = of_int m + (1 / 2 :: rat)"
    unfolding unfold using that by (rule round_half_up_1_tie)
qed

lemma aggregate_coverage:
  "agg_coverage_percentage (aggregate ds) =
     coverage_percentage (agg_images_with_alt (aggregate ds)) (agg_total_images (aggregate ds))"
  by (simp add: aggregate_def Let_def)

lemma coverage_consistentD:
  assumes "coverage_consistent e" and "scan_rows e i = Some s"
  shows "alt_text_coverage_percentage s = coverage_percentage (images_with_alt s) (total_images s)"
  using assms unfolding coverage_consistent_def by blast

lemma coverage_consistent_empty: "coverage_consistent empty_engine"
  by (simp add: coverage_consistent_def empty_engine_def)

lemma coverage_consistent_store:
  assumes inv: "coverage_consistent e"
    and new: "alt_text_coverage_percentage s' =
      coverage_percentage (images_with_alt s') (total_images s')"
    and rows: "scan_rows e' = (scan_rows e)(i \<mapsto> s')"
  shows "coverage_consistent e'"
  unfolding coverage_consistent_def
proof (intro allI impI)
  fix j s
  assume stored: "scan_rows e' j = Some s"
  show "alt_text_coverage_percentage s = coverage_percentage (images_with_alt s) (total_images s)"
  proof (cases "j = i")
    case True
    with stored rows have "s = s'" by simp
    with new show ?thesis by simp
  next
    case False
    with stored rows have "scan_rows e j = Some s" by simp
    with inv show ?thesis by (rule coverage_consistentD)
  qed
qed

lemma RequestScan_coverage:
  assumes "coverage_consistent e"
  shows "coverage_consistent (snd (RequestScan i u uid now e))"
proof (cases "scan_rows e i")
  case (Some s)
  with assms show ?thesis by (simp add: RequestScan_def)
next
  case None
  show ?thesis
    by (rule coverage_consistent_store [OF assms, where i = i])
      (simp_all add: RequestScan_def None Let_def coverage_percentage_def)
qed

lemma start_scan_coverage:
  assumes "coverage_consistent e"
  shows "coverage_consistent (snd (start_scan i now e))"
proof (cases "scan_rows e i")
  case None
  with assms show ?thesis by (simp add: start_scan_def)
next
  case (Some s)
  note old = coverage_consistentD [OF assms Some]
  show ?thesis
  proof (cases "scan_status s = Pending")
    case False
    with Some assms show ?thesis by (simp add: start_scan_def)
  next
    case True
    show ?thesis
      by (rule coverage_consistent_store [OF assms, where i = i
            and s' = "s\<lparr>scan_status := Running, updated_at := now\<rparr>"])
        (use old in \<open>simp_all add: start_scan_def Some True Let_def\<close>)
  qed
qed

lemma complete_scan_coverage:
  assumes "coverage_consistent e"
  shows "coverage_consistent (snd (complete_scan i ds duration now e))"
proof (cases "fst (complete_scan i ds duration now e)")
  case (Inl err)
  then have "snd (complete_scan i ds duration now e) = e"
    by (auto simp add: complete_scan_def Let_def split: option.splits if_splits)
  with assms show ?thesis by simp
next
  case (Inr s)
  note result = complete_scan_result [OF Inr]
  from Inr have rows: "scan_rows (snd (complete_scan i ds duration now e)) = (scan_rows e)(i \<mapsto> s)"
    by (auto simp add: complete_scan_def Let_def split: option.splits if_splits)
  from result have "alt_text_coverage_percentage s =
      coverage_percentage (images_with_alt s) (total_images s)"
    by blast
  with assms show ?thesis
    using rows by (rule coverage_consistent_store)
qed

lemma fail_scan_coverage:
  assumes "coverage_consistent e"
  shows "coverage_consistent (snd (fail_scan i message duration now e))"
proof (cases "scan_rows e i")
  case None
  with assms show ?thesis by (simp add: fail_scan_def)
next
  case (Some s)
  note old = coverage_consistentD [OF assms Some]
  show ?thesis
  proof (cases "scan_status s = Pending \<or> scan_status s = Running")
    case False
    with Some assms show ?thesis by (simp add: fail_scan_def)
  next
    case True
    show ?thesis
      by (rule coverage_consistent_store [OF assms, where i = i
            and s' = "s\<lparr>scan_status := Failed, error_message := Some message,
              scan_duration_ms := Some duration, updated_at := now\<rparr>"])
        (use old True in \<open>simp_all add: fail_scan_def Some Let_def\<close>)
  qed
qed

lemma RetryScan_coverage:
  assumes "coverage_consistent e"
  shows "coverage_consistent (snd (RetryScan i now e))"
proof (cases "scan_rows e i")
  case None
  with assms show ?thesis by (simp add: RetryScan_def)
next
  case (Some s)
  note old = coverage_consistentD [OF assms Some]
  show ?thesis
  proof (cases "scan_status s = Failed")
    case False
    with Some assms show ?thesis by (simp add: RetryScan_def)
  next
    case True
    show ?thesis
      by (rule coverage_consistent_store [OF assms, where i = i
            and s' = "s\<lparr>scan_status := Pending, error_message := None, updated_at := now\<rparr>"])
        (use old in \<open>simp_all add: RetryScan_def Some True Let_def\<close>)
  qed
qed

lemma apply_op_coverage:
  assumes "coverage_consistent e"
  shows "coverage_consistent (snd (apply_op op e))"
proof (cases op)
  case (Create i u uid now)
  with assms show ?thesis by (simp add: RequestScan_coverage)
next
  case (Run i now)
  with assms show ?thesis by (simp add: start_scan_coverage)
next
  case (Complete i ds duration now)
  with assms show ?thesis by (simp add: complete_scan_coverage)
next
  case (Fail i message duration now)
  with assms show ?thesis by (simp add: fail_scan_coverage)
next
  case (Retry i now)
  with assms show ?thesis by (simp add: RetryScan_coverage)
qed

lemma run_ops_coverage:
  "coverage_consistent e \<Longrightarrow> coverage_consistent (run_ops ops e)"
proof (induction ops arbitrary: e)
  case Nil
  then show ?case by simp
next
  case (Cons op ops)
  from Cons.prems have "coverage_consistent (snd (apply_op op e))"
    by (rule apply_op_coverage)
  then have "coverage_consistent (run_ops ops (snd (apply_op op e)))"
    by (rule Cons.IH)
  then show ?case by simp
qed

lemma tie_run: "scan_rows (run_ops tie_ops empty_engine) 2 = Some tie_scan"
  using coverage_percentage_div [of 16 1]
  by (simp add: tie_ops_def tie_images_def tie_scan_def empty_engine_def
      RequestScan_def start_scan_def complete_scan_def aggregate_def classify_def sample_ref_def
      Let_def)

text \<open>
  C4. Every scan that the engine stores, after any sequence of lifecycle operations, carries
  as \<^verbatim>\<open>alt_text_coverage_percentage\<close> the share
  \<^verbatim>\<open>images_with_alt / total_images * 100\<close> of its own counts rounded to one decimal
  place, half up: it is exactly \<open>0\<close> when \<^verbatim>\<open>total_images\<close> is \<open>0\<close>, and otherwise a
  whole number of tenths within one twentieth of the share, the upper tenth when the share
  lies exactly between two. A scan with two images with alt text out of three has \<open>66.7\<close>.
  The same holds of the aggregate of any list of image rows, of the scan that a completion
  returns from any store, and every lifecycle operation preserves the property. The
  rounding function itself gives \<open>0\<close> for no images, \<open>66.7\<close> for two of three, and the
  nearest tenth with ties up otherwise.
\<close>

theorem coverage_percentage_round_half_up:
  "coverage_percentage w 0 = 0 \<and>
   coverage_percentage 2 3 = 667 / 10 \<and>
   (t \<noteq> 0 \<longrightarrow>
      (\<exists>k::int. coverage_percentage w t = of_int k / 10) \<and>
      \<bar>coverage_percentage w t - of_int w / of_int t * 100\<bar> \<le> 1 / 20 \<and>
      (of_int w / of_int t * 100 * 10 = of_int m + (1 / 2 :: rat) \<longrightarrow>
         coverage_percentage w t = (of_int m + 1) / 10)) \<and>
   agg_coverage_percentage (aggregate ds) =
     coverage_percentage (agg_images_with_alt (aggregate ds)) (agg_total_images (aggregate ds)) \<and>
   (fst (complete_scan i ds duration now e) = Inr s \<longrightarrow>
      alt_text_coverage_percentage s =
        coverage_percentage (images_with_alt s) (total_images s)) \<and>
   coverage_consistent empty_engine \<and>
   (coverage_consistent e \<longrightarrow> coverage_consistent (snd (apply_op op e))) \<and>
   coverage_consistent (run_ops ops empty_engine) \<and>
   (scan_rows (run_ops ops empty_engine) j = Some c \<longrightarrow>
      alt_text_coverage_percentage c =
        coverage_percentage (images_with_alt c) (total_images c) \<and>
      (total_images c = 0 \<longrightarrow> alt_text_coverage_percentage c = 0) \<and>
      (total_images c \<noteq> 0 \<longrightarrow>
         (\<exists>k::int. alt_text_coverage_percentage c = of_int k / 10) \<and>
         \<bar>alt_text_coverage_percentage c -
            of_int (images_with_alt c) / of_int (total_images c) * 100\<bar> \<le> 1 / 20 \<and>
         (of_int (images_with_alt c) / of_int (total_images c) * 100 * 10 =
            of_int n + (1 / 2 :: rat) \<longrightarrow>
            alt_text_coverage_percentage c = (of_int n + 1) / 10)) \<and>
      (images_with_alt c = 2 \<and> total_images c = 3 \<longrightarrow>
         alt_text_coverage_percentage c = 667 / 10))"
proof -
  have zero: "coverage_percentage w 0 = 0" for w
    by (simp add: coverage_percentage_def)
  have rounding: "(\<exists>k::int. coverage_percentage w t = of_int k / 10) \<and>
      \<bar>coverage_percentage w t - of_int w / of_int t * 100\<bar> \<le> 1 / 20 \<and>
      (of_int w / of_int t * 100 * 10 = of_int m + (1 / 2 :: rat) \<longrightarrow>
         coverage_percentage w t = (of_int m + 1) / 10)"
    if "t \<noteq> 0" for w t m
    using coverage_percentage_rounding [OF that] by blast
  have completion: "alt_text_coverage_percentage s =
        coverage_percentage (images_with_alt s) (total_images s)"
    if "fst (complete_scan i ds duration now e) = Inr s"
    using complete_scan_result [OF that] by blast
  have reachable: "coverage_consistent (run_ops ops empty_engine)"
    using coverage_consistent_empty by (rule run_ops_coverage)
  have stored: "alt_text_coverage_percentage c =
        coverage_percentage (images_with_alt c) (total_images c) \<and>
      (total_images c = 0 \<longrightarrow> alt_text_coverage_percentage c = 0) \<and>
      (total_images c \<noteq> 0 \<longrightarrow>
         (\<exists>k::int. alt_text_coverage_percentage c = of_int k / 10) \<and>
         \<bar>alt_text_coverage_percentage c -
            of_int (images_with_alt c) / of_int (total_images c) * 100\<bar> \<le> 1 / 20 \<and>
         (of_int (images_with_alt c) / of_int (total_images c) * 100 * 10 =
            of_int n + (1 / 2 :: rat) \<longrightarrow>
            alt_text_coverage_percentage c = (of_int n + 1) / 10)) \<and>
      (images_with_alt c = 2 \<and> total_images c = 3 \<longrightarrow>
         alt_text_coverage_percentage c = 667 / 10)"
    if "scan_rows (run_ops ops empty_engine) j = Some c"
  proof -
    have own: "alt_text_coverage_percentage c =
        coverage_percentage (images_with_alt c) (total_images c)"
      using reachable that by (rule coverage_consistentD)
    show ?thesis
      unfolding own
      using zero [of "images_with_alt c"] rounding [of "total_images c" "images_with_alt c" n]
        coverage_two_of_three
      by auto
  qed
  from zero [of w] coverage_two_of_three rounding [of t w m] aggregate_coverage [of ds]
    completion coverage_consistent_empty apply_op_coverage [of e op] reachable stored
  show ?thesis by blast
qed

theorem coverage_percentage_round_half_up_witness:
  "(16::int) \<noteq> 0 \<and>
   (of_int 1 / of_int 16 * 100 * 10 :: rat) = of_int 62 + 1 / 2 \<and>
   coverage_percentage 1 16 = 63 / 10 \<and>
   \<bar>coverage_percentage 1 16 - of_int 1 / of_int 16 * 100\<bar> \<le> 1 / 20 \<and>
   coverage_percentage 2 3 = 667 / 10 \<and>
   coverage_percentage 5 0 = 0 \<and>
   scan_rows (run_ops scenario_a_ops empty_engine) 1 = Some scenario_a_scan \<and>
   images_with_alt scenario_a_scan = 2 \<and> total_images scenario_a_scan = 3 \<and>
   alt_text_coverage_percentage scenario_a_scan = 667 / 10 \<and>
   scan_rows (run_ops tie_ops empty_engine) 2 = Some tie_scan \<and>
   total_images tie_scan \<noteq> 0 \<and>
   (of_int (images_with_alt tie_scan) / of_int (total_images tie_scan) * 100 * 10 :: rat) =
     of_int 62 + 1 / 2 \<and>
   alt_text_coverage_percentage tie_scan = 63 / 10 \<and>
   scan_rows (run_ops failed_scan_ops empty_engine) 1 = Some failed_scan \<and>
   total_images failed_scan = 0 \<and>
   alt_text_coverage_percentage failed_scan = 0 \<and>
   fst (complete_scan 1 scenario_a_images 120 ''t2''
      (run_ops [Create 1 ''https://example.com'' 7 ''t0'', Run 1 ''t1''] empty_engine)) =
     Inr scenario_a_scan \<and>
   alt_text_coverage_percentage scenario_a_scan =
     coverage_percentage (images_with_alt scenario_a_scan) (total_images scenario_a_scan) \<and>
   coverage_consistent empty_engine \<and>
   coverage_consistent (snd (apply_op (Run 1 ''t1'') empty_engine))"
proof -
  let ?running = "run_ops [Create 1 ''https://example.com'' 7 ''t0'', Run 1 ''t1''] empty_engine"
  note on_function = coverage_percentage_round_half_up [where w = 1 and t = 16 and m = 62]
  note on_zero = coverage_percentage_round_half_up [where w = 5]
  note on_scenario = coverage_percentage_round_half_up [where ops = scenario_a_ops and j = 1
      and c = scenario_a_scan and e = ?running and i = 1 and ds = scenario_a_images
      and duration = 120 and now = "''t2''" and s = scenario_a_scan]
  note on_tie = coverage_percentage_round_half_up [where ops = tie_ops and j = 2
      and c = tie_scan and n = 62]
  note on_failed = coverage_percentage_round_half_up [where ops = failed_scan_ops and j = 1
      and c = failed_scan and e = empty_engine and op = "Run 1 ''t1''"]
  have nz: "(16::int) \<noteq> 0" by simp
  have tie: "(of_int 1 / of_int 16 * 100 * 10 :: rat) = of_int 62 + 1 / 2" by simp
  from on_function nz
  have near: "\<bar>coverage_percentage 1 16 - of_int 1 / of_int 16 * 100\<bar> \<le> 1 / 20"
    by blast
  from on_function nz tie have "coverage_percentage 1 16 = (of_int 62 + 1) / 10"
    by blast
  then have up: "coverage_percentage 1 16 = 63 / 10" by simp
  from on_function have two: "coverage_percentage 2 3 = 667 / 10"
    by blast
  from on_zero have zero: "coverage_percentage 5 0 = 0"
    by blast
  have a_counts: "images_with_alt scenario_a_scan = 2" "total_images scenario_a_scan = 3"
    by (simp_all add: scenario_a_scan_def)
  from on_scenario scenario_a_run a_counts
  have a_cov: "alt_text_coverage_percentage scenario_a_scan = 667 / 10"
    by blast
  have tie_total: "total_images tie_scan \<noteq> 0"
    by (simp add: tie_scan_def)
  have tie_share: "(of_int (images_with_alt tie_scan) / of_int (total_images tie_scan) * 100 * 10 :: rat) =
     of_int 62 + 1 / 2"
    by (simp add: tie_scan_def)
  from on_tie tie_run tie_total tie_share
  have "alt_text_coverage_percentage tie_scan = (of_int 62 + 1) / 10"
    by blast
  then have tie_cov: "alt_text_coverage_percentage tie_scan = 63 / 10" by simp
  have failed_total: "total_images failed_scan = 0"
    by (simp add: failed_scan_def)
  from on_failed failed_scan_run failed_total
  have failed_cov: "alt_text_coverage_percentage failed_scan = 0"
    by blast
  have completion: "fst (complete_scan 1 scenario_a_images 120 ''t2'' ?running) = Inr scenario_a_scan"
    by (simp add: scenario_a_images_def scenario_a_scan_def empty_engine_def
        RequestScan_def start_scan_def complete_scan_def aggregate_def classify_def sample_ref_def
        coverage_two_of_three Let_def)
  from on_scenario completion
  have own: "alt_text_coverage_percentage scenario_a_scan =
     coverage_percentage (images_with_alt scenario_a_scan) (total_images scenario_a_scan)"
    by blast
  from on_failed have start: "coverage_consistent empty_engine"
    by blast
  with on_failed have step: "coverage_consistent (snd (apply_op (Run 1 ''t1'') empty_engine))"
    by blast
  from nz tie up near two zero scenario_a_run a_counts a_cov tie_run tie_total tie_share tie_cov
    failed_scan_run failed_total failed_cov completion own start step
  show ?thesis by blast
qed

end
